theory Spec2Isabelle
  imports Main
begin

section \<open>Values and objects of the voice player\<close>

text \<open>
  The player of \<^verbatim>\<open>src/client/voice/player/AudioPlayer.js\<close> keeps a collection of
  streams, each with the transcoder and the dispatcher that serve it. Objects are
  compared by identity in the source (\<^verbatim>\<open>===\<close>, keys of a \<^verbatim>\<open>Map\<close>), so every object is
  represented by a handle. A transcoder and a dispatcher are numbered at their creation.
  A stream is either one the caller brought, or the \<^verbatim>\<open>output\<close> property of a transcoder.
\<close>

type_synonym tid = nat
type_synonym did = nat

datatype stream = External nat | Output tid

text \<open>
  The JavaScript values that reach the player as the argument \<^verbatim>\<open>except\<close>, as the
  argument of a listener, or as the payload of an emitted event. \<open>Error m\<close> is an
  \<^verbatim>\<open>Error\<close> object with message \<open>m\<close>, \<open>Ref s\<close> the stream object \<open>s\<close>.
\<close>

datatype jsvalue = Undefined | Boolean bool | Str string | Ref stream | Error string

text \<open>The conversion of a template literal, \<^verbatim>\<open>`${e}`\<close>.\<close>

fun template :: "jsvalue \<Rightarrow> string" where
  "template Undefined = ''undefined''"
| "template (Boolean b) = (if b then ''true'' else ''false'')"
| "template (Str s) = s"
| "template (Ref r) = ''[object Object]''"
| "template (Error m) = (if m = [] then ''Error'' else ''Error: '' @ m)"

text \<open>
  The values of the options \<^verbatim>\<open>seek\<close>, \<^verbatim>\<open>volume\<close> and \<^verbatim>\<open>passes\<close> are JavaScript
  values of any kind; the player hands them on and computes with none of them. They are
  the values of a type \<open>'v\<close>, of which only the numbers \<^verbatim>\<open>0\<close> and \<^verbatim>\<open>1\<close> of the defaults
  are named. \<^verbatim>\<open>String(seek)\<close> is a built-in of the language and not of the repository:
  the function \<open>String\<close> is an argument of \<open>playUnknownStream\<close>, and what is proved
  holds for every such function.
\<close>

text \<open>
  The options argument \<^verbatim>\<open>{ seek = 0, volume = 1, passes = 1 } = {}\<close>: a property that is
  \<^verbatim>\<open>undefined\<close> is \<open>None\<close>, and so is an argument that is not given at all.
\<close>

record 'v opts =
  seek :: "'v option"
  volume :: "'v option"
  passes :: "'v option"

definition destructure :: "('v::{zero,one}) opts option \<Rightarrow> 'v \<times> 'v \<times> 'v" where
  "destructure a =
     (let obj = (case a of None \<Rightarrow> \<lparr>seek = None, volume = None, passes = None\<rparr> | Some x \<Rightarrow> x)
      in (case seek obj of None \<Rightarrow> 0 | Some s \<Rightarrow> s,
          case volume obj of None \<Rightarrow> 1 | Some v \<Rightarrow> v,
          case passes obj of None \<Rightarrow> 1 | Some n \<Rightarrow> n))"

text \<open>The object \<^verbatim>\<open>{ seek, volume, passes }\<close> built from the three variables.\<close>

definition options_of :: "'v \<times> 'v \<times> 'v \<Rightarrow> 'v opts" where
  "options_of x = (case x of (s, v, n) \<Rightarrow> \<lparr>seek = Some s, volume = Some v, passes = Some n\<rparr>)"

text \<open>
  An entry of the collection: the object literal \<^verbatim>\<open>{ transcoder, input }\<close> or
  \<^verbatim>\<open>{ dispatcher, input }\<close>. A property the literal does not give is \<^verbatim>\<open>undefined\<close>,
  here \<open>None\<close>. \<open>ident\<close> is the identity of the object, which \<^verbatim>\<open>===\<close> compares.
\<close>

record entry =
  ident :: nat
  transcoder :: "tid option"
  dispatcher :: "did option"
  input :: stream

section \<open>The collection\<close>

text \<open>
  Modelled from the spec: \<^verbatim>\<open>util/Collection\<close> is not among the sources. The spec
  describes the registry as an ordered mapping from stream handle to entry, insertion
  order preserved, with a lookup of the most recently inserted entry. It is a JavaScript
  \<^verbatim>\<open>Map\<close>: \<^verbatim>\<open>set\<close> on a key that is present replaces the value where it stands, on a
  new key it appends; \<^verbatim>\<open>get\<close> and \<^verbatim>\<open>last\<close> give \<^verbatim>\<open>undefined\<close> (\<open>None\<close>) when there
  is nothing to give.
\<close>

type_synonym collection = "(stream \<times> entry) list"

definition Collection_get :: "collection \<Rightarrow> stream \<Rightarrow> entry option" where
  "Collection_get c k = map_of c k"

definition Collection_has :: "collection \<Rightarrow> stream \<Rightarrow> bool" where
  "Collection_has c k = (k \<in> set (map fst c))"

fun Collection_set :: "collection \<Rightarrow> stream \<Rightarrow> entry \<Rightarrow> collection" where
  "Collection_set [] k v = [(k, v)]"
| "Collection_set ((k', v') # c) k v =
     (if k' = k then (k, v) # c else (k', v') # Collection_set c k v)"

definition Collection_delete :: "collection \<Rightarrow> stream \<Rightarrow> collection" where
  "Collection_delete c k = filter (\<lambda>kv. fst kv \<noteq> k) c"

definition Collection_keys :: "collection \<Rightarrow> stream list" where
  "Collection_keys c = map fst c"

definition Collection_last :: "collection \<Rightarrow> entry option" where
  "Collection_last c = (if c = [] then None else Some (snd (last c)))"

section \<open>The player\<close>

text \<open>
  Modelled from the spec: \<^verbatim>\<open>dispatcher/StreamDispatcher\<close> is not among the sources, and
  \<^verbatim>\<open>prism-media\<close> and the voice connection are outside the repository. The spec has
  them as collaborators behind narrow interfaces (start and kill of the transcoder,
  create and \<^verbatim>\<open>destroy(reason)\<close> of the dispatcher, \<^verbatim>\<open>setSpeaking\<close> of the voice
  session) that signal by events. What the player does to them is recorded, call by
  call, in \<open>effects\<close>: \<^verbatim>\<open>prism.transcode\<close>, \<^verbatim>\<open>transcoder.kill\<close>,
  \<^verbatim>\<open>new StreamDispatcher\<close>, \<^verbatim>\<open>dispatcher.destroy\<close>, \<^verbatim>\<open>voiceConnection.setSpeaking\<close>
  and the player's own \<^verbatim>\<open>emit\<close>. A call on a collaborator returns without calling
  back into the player; the events of a collaborator come between the calls of the
  player's methods (\<open>emit_from\<close> below).
\<close>

record transcode_config =
  cfg_type :: string
  cfg_media :: stream
  cfg_ffmpegArguments :: "string list"

datatype 'v effect =
    Transcode tid transcode_config
  | Kill tid
  | NewStreamDispatcher did stream "'v opts"
  | Destroy did string
  | SetSpeaking jsvalue
  | Emit string jsvalue

text \<open>
  The listeners the player registers with \<^verbatim>\<open>on\<close>, one constructor for each arrow
  function of the source, with the variable it captures.
\<close>

datatype emitter = TranscoderObj tid | DispatcherObj did

datatype listener =
    TranscoderError stream
  | DispatcherSpeaking
  | DispatcherEnd stream
  | DispatcherError stream

record 'v player =
  streams :: collection
  listeners :: "(emitter \<times> string \<times> listener) list"
  error_listeners :: nat
  next_id :: nat
  effects :: "'v effect list"

text \<open>
  The constructor: an empty collection. \<open>error_listeners\<close> is what
  \<^verbatim>\<open>this.listenerCount('error')\<close> reads; \<open>next_id\<close> numbers the objects created after.
  The fields \<^verbatim>\<open>opusEncoder\<close> and \<^verbatim>\<open>streamingData\<close> are set by the constructor and read
  by no method of the class; they are left out.
\<close>

definition AudioPlayer :: "'v player" where
  "AudioPlayer = \<lparr>streams = [], listeners = [], error_listeners = 0, next_id = 0, effects = []\<rparr>"

definition call :: "'v effect \<Rightarrow> 'v player \<Rightarrow> 'v player" where
  "call e p = p\<lparr>effects := effects p @ [e]\<rparr>"

definition on :: "emitter \<Rightarrow> string \<Rightarrow> listener \<Rightarrow> 'v player \<Rightarrow> 'v player" where
  "on src ev l p = p\<lparr>listeners := listeners p @ [(src, ev, l)]\<rparr>"

definition ffmpegArguments :: "string list" where
  "ffmpegArguments =
     [''-analyzeduration'', ''0'', ''-loglevel'', ''0'', ''-f'', ''s16le'',
      ''-ar'', ''48000'', ''-ac'', ''2'']"

datatype error = TypeError

text \<open>
  \<^verbatim>\<open>get currentTranscoder() { return this.streams.last().transcoder; }\<close>
  Reading a property of \<^verbatim>\<open>undefined\<close> throws a \<^verbatim>\<open>TypeError\<close>. The player is returned
  beside the result, as the accessor leaves it.
\<close>

definition currentTranscoder :: "'v player \<Rightarrow> (error + tid option) \<times> 'v player" where
  "currentTranscoder p =
     (case Collection_last (streams p) of
        None \<Rightarrow> (Inl TypeError, p)
      | Some data \<Rightarrow> (Inr (transcoder data), p))"

definition destroyStream :: "stream \<Rightarrow> 'v player \<Rightarrow> 'v player" where
  "destroyStream stream p =
     (case Collection_get (streams p) stream of
        None \<Rightarrow> p
      | Some data \<Rightarrow>
          (let p1 = (case transcoder data of None \<Rightarrow> p | Some t \<Rightarrow> call (Kill t) p);
               p2 = (case dispatcher data of None \<Rightarrow> p1 | Some d \<Rightarrow> call (Destroy d ''end'') p1)
           in p2\<lparr>streams := Collection_delete (streams p2) stream\<rparr>))"

text \<open>
  The loop of \<^verbatim>\<open>destroyAllStreams\<close> runs over \<^verbatim>\<open>this.streams.keys()\<close>. The body deletes
  no key but the one it stands on, so the live iterator visits the keys the collection
  had at the start, in their order; the collection itself, and with it
  \<^verbatim>\<open>this.streams.last()\<close>, is read anew at every key.
\<close>

fun destroyAllStreams_loop :: "jsvalue \<Rightarrow> stream list \<Rightarrow> 'v player \<Rightarrow> 'v player" where
  "destroyAllStreams_loop except [] p = p"
| "destroyAllStreams_loop except (stream # rest) p =
     (if except = Ref stream then destroyAllStreams_loop except rest p
      else if except = Boolean True \<and>
              map_option ident (Collection_get (streams p) stream) =
              map_option ident (Collection_last (streams p))
      then destroyAllStreams_loop except rest p
      else destroyAllStreams_loop except rest (destroyStream stream p))"

definition destroyAllStreams :: "jsvalue \<Rightarrow> 'v player \<Rightarrow> 'v player" where
  "destroyAllStreams except p = destroyAllStreams_loop except (Collection_keys (streams p)) p"

text \<open>
  \<^verbatim>\<open>this.streams.get(stream).dispatcher = dispatcher\<close>: the entry object is changed in
  place, it keeps its identity and its place. On a key without an entry the source reads
  a property of \<^verbatim>\<open>undefined\<close>.
\<close>

definition assign_dispatcher :: "stream \<Rightarrow> did \<Rightarrow> collection \<Rightarrow> error + collection" where
  "assign_dispatcher stream d c =
     (case Collection_get c stream of
        None \<Rightarrow> Inl TypeError
      | Some data \<Rightarrow> Inr (Collection_set c stream (data\<lparr>dispatcher := Some d\<rparr>)))"

definition playPCMStream ::
  "stream \<Rightarrow> ('v::{zero,one}) opts option \<Rightarrow> 'v player \<Rightarrow> error + (did \<times> 'v player)" where
  "playPCMStream stream a p =
     (let options = options_of (destructure a);
          p1 = destroyAllStreams (Ref stream) p;
          d = next_id p1;
          p2 = call (NewStreamDispatcher d stream options) (p1\<lparr>next_id := Suc d\<rparr>);
          p3 = on (DispatcherObj d) ''speaking'' DispatcherSpeaking p2;
          p4 = (if \<not> Collection_has (streams p3) stream
                then p3\<lparr>streams := Collection_set (streams p3) stream
                          \<lparr>ident = next_id p3, transcoder = None, dispatcher = Some d, input = stream\<rparr>,
                        next_id := Suc (next_id p3)\<rparr>
                else p3)
      in case assign_dispatcher stream d (streams p4) of
           Inl e \<Rightarrow> Inl e
         | Inr c \<Rightarrow>
             (let p5 = p4\<lparr>streams := c\<rparr>;
                  p6 = on (DispatcherObj d) ''end'' (DispatcherEnd stream) p5;
                  p7 = on (DispatcherObj d) ''error'' (DispatcherError stream) p6
              in Inr (d, p7)))"

definition playUnknownStream ::
  "('v \<Rightarrow> string) \<Rightarrow> stream \<Rightarrow> ('v::{zero,one}) opts option \<Rightarrow> 'v player \<Rightarrow>
   error + (did \<times> 'v player)" where
  "playUnknownStream String stream a p =
     (let options = options_of (destructure a);
          t = next_id p;
          p1 = call (Transcode t \<lparr>cfg_type = ''ffmpeg'', cfg_media = stream,
                       cfg_ffmpegArguments =
                         ffmpegArguments @ [''-ss'', String (fst (destructure a))]\<rparr>)
                 (p\<lparr>next_id := Suc t\<rparr>);
          p2 = p1\<lparr>streams := Collection_set (streams p1) (Output t)
                    \<lparr>ident = next_id p1, transcoder = Some t, dispatcher = None, input = stream\<rparr>,
                  next_id := Suc (next_id p1)\<rparr>;
          p3 = on (TranscoderObj t) ''error'' (TranscoderError stream) p2
      in playPCMStream (Output t) (Some options) p3)"

text \<open>
  The bodies of the listeners. The listener of the transcoder's \<^verbatim>\<open>error\<close>:
  \<^verbatim>\<open>this.destroyStream(stream);
  if (this.listenerCount('error') > 0) this.emit('error', e);
  this.emit('warn', `prism transcoder error - ${e}`);\<close>
\<close>

fun run_listener :: "listener \<Rightarrow> jsvalue \<Rightarrow> 'v player \<Rightarrow> 'v player" where
  "run_listener (TranscoderError stream) e p =
     (let p1 = destroyStream stream p;
          p2 = (if error_listeners p1 > 0 then call (Emit ''error'' e) p1 else p1)
      in call (Emit ''warn'' (Str (''prism transcoder error - '' @ template e))) p2)"
| "run_listener DispatcherSpeaking v p = call (SetSpeaking v) p"
| "run_listener (DispatcherEnd stream) v p = destroyStream stream p"
| "run_listener (DispatcherError stream) v p = destroyStream stream p"

text \<open>
  A collaborator emits an event: the listeners registered for it run in the order of
  their registration, each with the argument of the event.
\<close>

definition listeners_of :: "emitter \<Rightarrow> string \<Rightarrow> 'v player \<Rightarrow> listener list" where
  "listeners_of src ev p =
     map (\<lambda>x. snd (snd x)) (filter (\<lambda>x. fst x = src \<and> fst (snd x) = ev) (listeners p))"

definition emit_from :: "emitter \<Rightarrow> string \<Rightarrow> jsvalue \<Rightarrow> 'v player \<Rightarrow> 'v player" where
  "emit_from src ev v p = fold (\<lambda>l. run_listener l v) (listeners_of src ev p) p"

section \<open>Vocabulary of the properties\<close>

text \<open>
  The calls \<^verbatim>\<open>destroyStream\<close> makes on the collaborators of an entry: \<^verbatim>\<open>kill\<close> on the
  transcoder when there is one, then \<^verbatim>\<open>destroy('end')\<close> on the dispatcher when there
  is one.
\<close>

definition teardown :: "entry \<Rightarrow> 'v effect list" where
  "teardown data =
     (case transcoder data of None \<Rightarrow> [] | Some t \<Rightarrow> [Kill t]) @
     (case dispatcher data of None \<Rightarrow> [] | Some d \<Rightarrow> [Destroy d ''end''])"

text \<open>The calls made between the player \<open>p\<close> and the later player \<open>p'\<close>.\<close>

definition new_effects :: "'v player \<Rightarrow> 'v player \<Rightarrow> 'v effect list" where
  "new_effects p p' = drop (length (effects p)) (effects p')"

text \<open>The transcoders and the dispatchers that the entries of a collection hold.\<close>

definition transcoders_of :: "collection \<Rightarrow> tid list" where
  "transcoders_of c =
     concat (map (\<lambda>kv. case transcoder (snd kv) of None \<Rightarrow> [] | Some t \<Rightarrow> [t]) c)"

definition dispatchers_of :: "collection \<Rightarrow> did list" where
  "dispatchers_of c =
     concat (map (\<lambda>kv. case dispatcher (snd kv) of None \<Rightarrow> [] | Some d \<Rightarrow> [d]) c)"

text \<open>
  The value of a property of the options as the methods take it: what the caller gave,
  or the default where the caller gave no options or left the property \<^verbatim>\<open>undefined\<close>.
\<close>

definition option_value :: "'v \<Rightarrow> ('v opts \<Rightarrow> 'v option) \<Rightarrow> 'v opts option \<Rightarrow> 'v" where
  "option_value dflt prop a =
     (case a of None \<Rightarrow> dflt
      | Some obj \<Rightarrow> (case prop obj of None \<Rightarrow> dflt | Some x \<Rightarrow> x))"

text \<open>
  Eight numbers of JavaScript to try the properties on, \<^verbatim>\<open>0\<close>, \<^verbatim>\<open>1\<close>, \<^verbatim>\<open>3\<close>, \<^verbatim>\<open>30\<close>,
  \<^verbatim>\<open>0.5\<close>, \<^verbatim>\<open>1.5\<close>, \<^verbatim>\<open>1e21\<close> and \<^verbatim>\<open>NaN\<close>, each with the string that \<^verbatim>\<open>String\<close>
  gives for it.
\<close>

datatype sample = Num0 | Num1 | Num3 | Num30 | Num0_5 | Num1_5 | Num1e21 | NaN

instantiation sample :: "{zero,one}"
begin

definition zero_sample :: sample where
  "zero_sample = Num0"

definition one_sample :: sample where
  "one_sample = Num1"

instance ..

end

fun String_sample :: "sample \<Rightarrow> string" where
  "String_sample Num0 = ''0''"
| "String_sample Num1 = ''1''"
| "String_sample Num3 = ''3''"
| "String_sample Num30 = ''30''"
| "String_sample Num0_5 = ''0.5''"
| "String_sample Num1_5 = ''1.5''"
| "String_sample Num1e21 = ''1e+21''"
| "String_sample NaN = ''NaN''"

text \<open>A player with three streams, on which the properties are tried.\<close>

definition demo_player :: "sample player" where
  "demo_player =
     \<lparr>streams =
        [(External 1, \<lparr>ident = 1, transcoder = None, dispatcher = Some 0, input = External 1\<rparr>),
         (Output 2, \<lparr>ident = 3, transcoder = Some 2, dispatcher = Some 4, input = External 7\<rparr>),
         (External 5, \<lparr>ident = 6, transcoder = None, dispatcher = None, input = External 5\<rparr>)],
      listeners = [], error_listeners = 0, next_id = 7, effects = []\<rparr>"

text \<open>
  The player that \<^verbatim>\<open>playPCMStream(s, a)\<close> leaves behind when the keys of the collection
  are distinct, in closed form (\<open>playPCMStream_result\<close> below).
\<close>

definition playPCMStream_outcome ::
  "stream \<Rightarrow> ('v::{zero,one}) opts option \<Rightarrow> 'v player \<Rightarrow> 'v player" where
  "playPCMStream_outcome s a p =
     \<lparr>streams =
        [(s, case Collection_get (streams p) s of
               None \<Rightarrow> \<lparr>ident = Suc (next_id p), transcoder = None,
                        dispatcher = Some (next_id p), input = s\<rparr>
             | Some data \<Rightarrow> data\<lparr>dispatcher := Some (next_id p)\<rparr>)],
      listeners = listeners p @
        [(DispatcherObj (next_id p), ''speaking'', DispatcherSpeaking),
         (DispatcherObj (next_id p), ''end'', DispatcherEnd s),
         (DispatcherObj (next_id p), ''error'', DispatcherError s)],
      error_listeners = error_listeners p,
      next_id = (case Collection_get (streams p) s of
                   None \<Rightarrow> Suc (Suc (next_id p)) | Some data \<Rightarrow> Suc (next_id p)),
      effects = effects (destroyAllStreams (Ref s) p) @
        [NewStreamDispatcher (next_id p) s (options_of (destructure a))]\<rparr>"

text \<open>The events the player itself emits, among the calls it makes.\<close>

fun emissions :: "'v effect list \<Rightarrow> (string \<times> jsvalue) list" where
  "emissions [] = []"
| "emissions (Emit ev v # es) = (ev, v) # emissions es"
| "emissions (_ # es) = emissions es"

text \<open>The player after \<^verbatim>\<open>playUnknownStream\<close> of the stream \<open>External 1\<close> with no options.\<close>

definition started :: "sample player \<Rightarrow> sample player" where
  "started p =
     (case playUnknownStream String_sample (External 1) None p of
        Inr (d, p') \<Rightarrow> p' | Inl e \<Rightarrow> p)"

text \<open>
  The player at the point where \<^verbatim>\<open>playUnknownStream(stream, a)\<close> calls
  \<^verbatim>\<open>playPCMStream\<close>: the transcoder started, its entry stored, its listener registered.
\<close>

definition playUnknownStream_registered ::
  "('v \<Rightarrow> string) \<Rightarrow> stream \<Rightarrow> ('v::{zero,one}) opts option \<Rightarrow> 'v player \<Rightarrow> 'v player" where
  "playUnknownStream_registered String stream a p =
     \<lparr>streams = Collection_set (streams p) (Output (next_id p))
                   \<lparr>ident = Suc (next_id p), transcoder = Some (next_id p),
                      dispatcher = None, input = stream\<rparr>,
      listeners = listeners p @ [(TranscoderObj (next_id p), ''error'', TranscoderError stream)],
      error_listeners = error_listeners p,
      next_id = Suc (Suc (next_id p)),
      effects = effects p @
        [Transcode (next_id p)
           \<lparr>cfg_type = ''ffmpeg'', cfg_media = stream,
              cfg_ffmpegArguments =
                [''-analyzeduration'', ''0'', ''-loglevel'', ''0'', ''-f'', ''s16le'',
                 ''-ar'', ''48000'', ''-ac'', ''2'', ''-ss'', String (option_value 0 seek a)]\<rparr>]\<rparr>"

text \<open>
  The shape of the players that the methods build. The keys of a \<^verbatim>\<open>Map\<close> are distinct,
  the entries are distinct objects, no transcoder and no dispatcher is held by two
  entries, and every object that has a listener was created before: its number is below
  \<open>next_id\<close>.
\<close>

fun emitter_id :: "emitter \<Rightarrow> nat" where
  "emitter_id (TranscoderObj t) = t"
| "emitter_id (DispatcherObj d) = d"

definition well_formed :: "'v player \<Rightarrow> bool" where
  "well_formed p \<longleftrightarrow>
     distinct (Collection_keys (streams p)) \<and>
     distinct (map (\<lambda>kv. ident (snd kv)) (streams p)) \<and>
     distinct (transcoders_of (streams p)) \<and>
     distinct (dispatchers_of (streams p)) \<and>
     (\<forall>x \<in> set (listeners p). emitter_id (fst x) < next_id p)"

text \<open>
  The players reached from a new one by the methods of the class, by the events of the
  transcoders and dispatchers, and by a change of the number of \<^verbatim>\<open>error\<close> listeners.
\<close>

inductive reachable :: "(('v::{zero,one}) \<Rightarrow> string) \<Rightarrow> 'v player \<Rightarrow> bool"
  for String :: "'v \<Rightarrow> string" where
  new: "reachable String (AudioPlayer\<lparr>error_listeners := n\<rparr>)"
| listen: "reachable String p \<Longrightarrow> reachable String (p\<lparr>error_listeners := n\<rparr>)"
| destroyStream: "reachable String p \<Longrightarrow> reachable String (destroyStream h p)"
| destroyAllStreams: "reachable String p \<Longrightarrow> reachable String (destroyAllStreams ex p)"
| playPCMStream:
    "reachable String p \<Longrightarrow> playPCMStream s a p = Inr (d, p') \<Longrightarrow> reachable String p'"
| playUnknownStream:
    "reachable String p \<Longrightarrow> playUnknownStream String s a p = Inr (d, p') \<Longrightarrow>
     reachable String p'"
| emit: "reachable String p \<Longrightarrow> reachable String (emit_from src ev v p)"

section \<open>The collection and \<open>destroyStream\<close>\<close>

lemma Collection_delete_absent:
  "Collection_get c k = None \<Longrightarrow> Collection_delete c k = c"
  unfolding Collection_get_def Collection_delete_def
  by (induction c) (auto split: if_splits)

lemma Collection_get_delete_same [simp]:
  "Collection_get (Collection_delete c k) k = None"
  unfolding Collection_get_def Collection_delete_def
  by (induction c) auto

lemma Collection_get_delete_other:
  "k' \<noteq> k \<Longrightarrow> Collection_get (Collection_delete c k) k' = Collection_get c k'"
  unfolding Collection_get_def Collection_delete_def
  by (induction c) auto

lemma Collection_has_get: "Collection_has c k \<longleftrightarrow> Collection_get c k \<noteq> None"
  unfolding Collection_has_def Collection_get_def
  by (simp add: map_of_eq_None_iff)

lemma Collection_get_in_set:
  "Collection_get c k = Some e \<Longrightarrow> (k, e) \<in> set c"
  by (simp add: Collection_get_def map_of_SomeD)

lemma streams_destroyStream [simp]:
  "streams (destroyStream h p) = Collection_delete (streams p) h"
  by (auto simp: destroyStream_def call_def Let_def Collection_delete_absent
           split: option.splits)

lemma effects_destroyStream:
  "effects (destroyStream h p) =
     effects p @ (case Collection_get (streams p) h of None \<Rightarrow> [] | Some data \<Rightarrow> teardown data)"
  by (auto simp: destroyStream_def call_def Let_def teardown_def split: option.splits)

lemma listeners_destroyStream [simp]: "listeners (destroyStream h p) = listeners p"
  by (auto simp: destroyStream_def call_def Let_def split: option.splits)

lemma next_id_destroyStream [simp]: "next_id (destroyStream h p) = next_id p"
  by (auto simp: destroyStream_def call_def Let_def split: option.splits)

lemma error_listeners_destroyStream [simp]:
  "error_listeners (destroyStream h p) = error_listeners p"
  by (auto simp: destroyStream_def call_def Let_def split: option.splits)

lemma destroyStream_absent:
  "Collection_get (streams p) h = None \<Longrightarrow> destroyStream h p = p"
  by (simp add: destroyStream_def)

lemma new_effects_destroyStream:
  "new_effects p (destroyStream h p) =
     (case Collection_get (streams p) h of None \<Rightarrow> [] | Some data \<Rightarrow> teardown data)"
  by (simp add: new_effects_def effects_destroyStream)

lemma transcoders_of_simps [simp]:
  "transcoders_of [] = []"
  "transcoders_of (kv # c) =
     (case transcoder (snd kv) of None \<Rightarrow> [] | Some t \<Rightarrow> [t]) @ transcoders_of c"
  by (simp_all add: transcoders_of_def)

lemma dispatchers_of_simps [simp]:
  "dispatchers_of [] = []"
  "dispatchers_of (kv # c) =
     (case dispatcher (snd kv) of None \<Rightarrow> [] | Some d \<Rightarrow> [d]) @ dispatchers_of c"
  by (simp_all add: dispatchers_of_def)

lemma in_transcoders_of:
  "(k, e) \<in> set c \<Longrightarrow> transcoder e = Some t \<Longrightarrow> t \<in> set (transcoders_of c)"
  by (induction c) (auto split: option.splits)

lemma in_dispatchers_of:
  "(k, e) \<in> set c \<Longrightarrow> dispatcher e = Some d \<Longrightarrow> d \<in> set (dispatchers_of c)"
  by (induction c) (auto split: option.splits)

lemma transcoder_owner_unique:
  "distinct (transcoders_of c) \<Longrightarrow> (k1, e1) \<in> set c \<Longrightarrow> (k2, e2) \<in> set c \<Longrightarrow>
   transcoder e1 = Some t \<Longrightarrow> transcoder e2 = Some t \<Longrightarrow> (k1, e1) = (k2, e2)"
  by (induction c) (auto split: option.splits dest: in_transcoders_of)

lemma dispatcher_owner_unique:
  "distinct (dispatchers_of c) \<Longrightarrow> (k1, e1) \<in> set c \<Longrightarrow> (k2, e2) \<in> set c \<Longrightarrow>
   dispatcher e1 = Some d \<Longrightarrow> dispatcher e2 = Some d \<Longrightarrow> (k1, e1) = (k2, e2)"
  by (induction c) (auto split: option.splits dest: in_dispatchers_of)

lemma Kill_in_teardown: "Kill t \<in> set (teardown e) \<longleftrightarrow> transcoder e = Some t"
  by (auto simp: teardown_def split: option.splits)

lemma Destroy_in_teardown:
  "Destroy d r \<in> set (teardown e) \<longleftrightarrow> dispatcher e = Some d \<and> r = ''end''"
  by (auto simp: teardown_def split: option.splits)

text \<open>
  C4. \<^verbatim>\<open>destroyStream(h)\<close> returns the player as it is when \<open>h\<close> has no entry. When \<open>h\<close>
  has the entry \<open>data\<close>, the calls it makes are \<^verbatim>\<open>kill\<close> on the transcoder of \<open>data\<close> if
  there is one, then \<^verbatim>\<open>destroy('end')\<close> on its dispatcher if there is one, and nothing
  else; the entry of \<open>h\<close> is deleted and the rest of the player is as before. Calling it
  a second time on the same handle changes nothing more.
\<close>

theorem destroyStream_spec:
  "(Collection_get (streams p) h = None \<longrightarrow> destroyStream h p = p) \<and>
   (\<forall>data. Collection_get (streams p) h = Some data \<longrightarrow>
      effects (destroyStream h p) =
        effects p @ (case transcoder data of None \<Rightarrow> [] | Some t \<Rightarrow> [Kill t])
                  @ (case dispatcher data of None \<Rightarrow> [] | Some d \<Rightarrow> [Destroy d ''end'']) \<and>
      streams (destroyStream h p) = Collection_delete (streams p) h \<and>
      \<not> Collection_has (streams (destroyStream h p)) h \<and>
      listeners (destroyStream h p) = listeners p \<and>
      error_listeners (destroyStream h p) = error_listeners p \<and>
      next_id (destroyStream h p) = next_id p) \<and>
   destroyStream h (destroyStream h p) = destroyStream h p"
proof (intro conjI allI impI)
  show "destroyStream h (destroyStream h p) = destroyStream h p"
    by (rule destroyStream_absent) simp
next
  fix data assume "Collection_get (streams p) h = Some data"
  then show "effects (destroyStream h p) =
        effects p @ (case transcoder data of None \<Rightarrow> [] | Some t \<Rightarrow> [Kill t])
                  @ (case dispatcher data of None \<Rightarrow> [] | Some d \<Rightarrow> [Destroy d ''end''])"
    by (simp add: effects_destroyStream teardown_def)
qed (simp_all add: destroyStream_absent Collection_has_get)

theorem destroyStream_spec_witness:
  "Collection_get (streams demo_player) (External 8) = None \<and>
   destroyStream (External 8) demo_player = demo_player \<and>
   Collection_get (streams demo_player) (Output 2) =
     Some \<lparr>ident = 3, transcoder = Some 2, dispatcher = Some 4, input = External 7\<rparr> \<and>
   effects (destroyStream (Output 2) demo_player) = [Kill 2, Destroy 4 ''end''] \<and>
   Collection_keys (streams (destroyStream (Output 2) demo_player)) = [External 1, External 5] \<and>
   destroyStream (Output 2) (destroyStream (Output 2) demo_player) =
     destroyStream (Output 2) demo_player"
  using destroyStream_spec [of demo_player "External 8"]
        destroyStream_spec [of demo_player "Output 2"]
  by (simp add: demo_player_def Collection_get_def Collection_delete_def Collection_keys_def)

text \<open>
  C9. \<^verbatim>\<open>destroyStream(h)\<close> leaves every entry under another key as it is and where it
  is: the collection after the call is the collection before it without the key \<open>h\<close>.
  Where no transcoder and no dispatcher is held by two entries, none of the calls it
  makes is a \<^verbatim>\<open>kill\<close> of the transcoder or a \<^verbatim>\<open>destroy\<close> of the dispatcher of an entry
  under another key.
\<close>

theorem destroyStream_frame:
  "streams (destroyStream h p) = filter (\<lambda>kv. fst kv \<noteq> h) (streams p) \<and>
   (\<forall>k. k \<noteq> h \<longrightarrow>
      Collection_get (streams (destroyStream h p)) k = Collection_get (streams p) k) \<and>
   (distinct (transcoders_of (streams p)) \<and> distinct (dispatchers_of (streams p)) \<longrightarrow>
      (\<forall>k e. (k, e) \<in> set (streams p) \<and> k \<noteq> h \<longrightarrow>
         (\<forall>t. transcoder e = Some t \<longrightarrow> Kill t \<notin> set (new_effects p (destroyStream h p))) \<and>
         (\<forall>d r. dispatcher e = Some d \<longrightarrow>
            Destroy d r \<notin> set (new_effects p (destroyStream h p)))))"
proof (intro conjI allI impI)
  show "streams (destroyStream h p) = filter (\<lambda>kv. fst kv \<noteq> h) (streams p)"
    by (simp add: Collection_delete_def)
next
  fix k assume "k \<noteq> h"
  then show "Collection_get (streams (destroyStream h p)) k = Collection_get (streams p) k"
    by (simp add: Collection_get_delete_other)
next
  fix k e t
  assume d: "distinct (transcoders_of (streams p)) \<and> distinct (dispatchers_of (streams p))"
    and ke: "(k, e) \<in> set (streams p) \<and> k \<noteq> h" and t: "transcoder e = Some t"
  show "Kill t \<notin> set (new_effects p (destroyStream h p))"
  proof
    assume "Kill t \<in> set (new_effects p (destroyStream h p))"
    then obtain data where g: "Collection_get (streams p) h = Some data"
      and "transcoder data = Some t"
      by (cases "Collection_get (streams p) h")
         (auto simp: new_effects_destroyStream Kill_in_teardown)
    with d ke t have "(k, e) = (h, data)"
      using transcoder_owner_unique [of "streams p" k e h data t] Collection_get_in_set [OF g]
      by blast
    with ke show False by simp
  qed
next
  fix k e d r
  assume dd: "distinct (transcoders_of (streams p)) \<and> distinct (dispatchers_of (streams p))"
    and ke: "(k, e) \<in> set (streams p) \<and> k \<noteq> h" and t: "dispatcher e = Some d"
  show "Destroy d r \<notin> set (new_effects p (destroyStream h p))"
  proof
    assume "Destroy d r \<in> set (new_effects p (destroyStream h p))"
    then obtain data where g: "Collection_get (streams p) h = Some data"
      and "dispatcher data = Some d"
      by (cases "Collection_get (streams p) h")
         (auto simp: new_effects_destroyStream Destroy_in_teardown)
    with dd ke t have "(k, e) = (h, data)"
      using dispatcher_owner_unique [of "streams p" k e h data d] Collection_get_in_set [OF g]
      by blast
    with ke show False by simp
  qed
qed

theorem destroyStream_frame_witness:
  "distinct (transcoders_of (streams demo_player)) \<and>
   distinct (dispatchers_of (streams demo_player)) \<and>
   (External 1, \<lparr>ident = 1, transcoder = None, dispatcher = Some 0, input = External 1\<rparr>)
     \<in> set (streams demo_player) \<and>
   External 1 \<noteq> Output 2 \<and>
   streams (destroyStream (Output 2) demo_player) =
     [(External 1, \<lparr>ident = 1, transcoder = None, dispatcher = Some 0, input = External 1\<rparr>),
      (External 5, \<lparr>ident = 6, transcoder = None, dispatcher = None, input = External 5\<rparr>)] \<and>
   Collection_get (streams (destroyStream (Output 2) demo_player)) (External 1) =
     Collection_get (streams demo_player) (External 1) \<and>
   Destroy 0 ''end'' \<notin> set (new_effects demo_player (destroyStream (Output 2) demo_player))"
  using destroyStream_frame [of "Output 2" demo_player]
  by (simp add: demo_player_def Collection_get_def Collection_delete_def new_effects_def
        effects_destroyStream teardown_def)


section \<open>\<open>destroyAllStreams\<close>\<close>

lemma listeners_loop [simp]:
  "listeners (destroyAllStreams_loop ex ks p) = listeners p"
  by (induction ks arbitrary: p) auto

lemma next_id_loop [simp]:
  "next_id (destroyAllStreams_loop ex ks p) = next_id p"
  by (induction ks arbitrary: p) auto

lemma error_listeners_loop [simp]:
  "error_listeners (destroyAllStreams_loop ex ks p) = error_listeners p"
  by (induction ks arbitrary: p) auto

lemma streams_loop_plain:
  "ex \<noteq> Boolean True \<Longrightarrow>
   streams (destroyAllStreams_loop ex ks p) =
     filter (\<lambda>kv. fst kv \<notin> set ks \<or> ex = Ref (fst kv)) (streams p)"
proof (induction ks arbitrary: p)
  case Nil
  then show ?case by simp
next
  case (Cons k ks)
  show ?case
  proof (cases "ex = Ref k")
    case True
    with Cons show ?thesis by (auto intro: filter_cong)
  next
    case False
    with Cons show ?thesis
      by (auto simp: Collection_delete_def intro: filter_cong)
  qed
qed

lemma effects_loop_plain:
  "ex \<noteq> Boolean True \<Longrightarrow> distinct ks \<Longrightarrow>
   effects (destroyAllStreams_loop ex ks p) =
     effects p @
     concat (map (\<lambda>k. case Collection_get (streams p) k of None \<Rightarrow> [] | Some e \<Rightarrow> teardown e)
               (filter (\<lambda>k. ex \<noteq> Ref k) ks))"
proof (induction ks arbitrary: p)
  case Nil
  then show ?case by simp
next
  case (Cons k ks)
  have other: "Collection_get (Collection_delete (streams p) k) x = Collection_get (streams p) x"
    if "x \<in> set ks" for x
    using that Cons.prems by (intro Collection_get_delete_other) auto
  have same: "map (\<lambda>k'. case Collection_get (streams (destroyStream k p)) k' of
                           None \<Rightarrow> [] | Some e \<Rightarrow> teardown e) (filter (\<lambda>k. ex \<noteq> Ref k) ks) =
              map (\<lambda>k'. case Collection_get (streams p) k' of
                           None \<Rightarrow> [] | Some e \<Rightarrow> teardown e) (filter (\<lambda>k. ex \<noteq> Ref k) ks)"
    by (intro map_cong) (simp_all add: other)
  show ?case
  proof (cases "ex = Ref k")
    case True
    with Cons show ?thesis by simp
  next
    case False
    have "effects (destroyAllStreams_loop ex (k # ks) p) =
          effects (destroyAllStreams_loop ex ks (destroyStream k p))"
      using False Cons.prems by simp
    also have "\<dots> = effects (destroyStream k p) @
        concat (map (\<lambda>k'. case Collection_get (streams (destroyStream k p)) k' of
                           None \<Rightarrow> [] | Some e \<Rightarrow> teardown e) (filter (\<lambda>k. ex \<noteq> Ref k) ks))"
      by (rule Cons.IH) (use Cons.prems in auto)
    also have "\<dots> = effects (destroyStream k p) @
        concat (map (\<lambda>k'. case Collection_get (streams p) k' of
                           None \<Rightarrow> [] | Some e \<Rightarrow> teardown e) (filter (\<lambda>k. ex \<noteq> Ref k) ks))"
      by (simp only: same)
    finally show ?thesis
      using False by (simp add: effects_destroyStream)
  qed
qed

lemma get_of_member:
  "distinct (map fst c) \<Longrightarrow> kv \<in> set c \<Longrightarrow> Collection_get c (fst kv) = Some (snd kv)"
  by (simp add: Collection_get_def)

lemma teardown_keys_conv:
  "distinct (map fst c) \<Longrightarrow>
   map (\<lambda>k. case Collection_get c k of None \<Rightarrow> [] | Some e \<Rightarrow> teardown e)
       (filter P (map fst c)) =
   map (\<lambda>kv. teardown (snd kv)) (filter (\<lambda>kv. P (fst kv)) c)"
proof -
  have "map (\<lambda>k. case Collection_get c k of None \<Rightarrow> [] | Some e \<Rightarrow> teardown e)
            (filter P (map fst c)) =
        map (\<lambda>kv. case Collection_get c (fst kv) of None \<Rightarrow> [] | Some e \<Rightarrow> teardown e)
            (filter (\<lambda>kv. P (fst kv)) c)"
    by (simp add: filter_map comp_def)
  also have "\<dots> = map (\<lambda>kv. teardown (snd kv)) (filter (\<lambda>kv. P (fst kv)) c)"
    if "distinct (map fst c)"
    using that by (intro map_cong) (auto simp: get_of_member)
  finally show ?thesis if "distinct (map fst c)" using that by simp
qed


lemma Collection_delete_head:
  "k \<notin> set (map fst c) \<Longrightarrow> Collection_delete ((k, e) # c) k = c"
  by (auto simp: Collection_delete_def filter_id_conv)

lemma loop_keep_last:
  "distinct (map fst c) \<Longrightarrow> distinct (map (\<lambda>kv. ident (snd kv)) c) \<Longrightarrow>
   streams p = c \<Longrightarrow> c \<noteq> [] \<Longrightarrow>
   streams (destroyAllStreams_loop (Boolean True) (map fst c) p) = [last c] \<and>
   effects (destroyAllStreams_loop (Boolean True) (map fst c) p) =
     effects p @ concat (map (\<lambda>kv. teardown (snd kv)) (butlast c))"
proof (induction c arbitrary: p)
  case Nil
  then show ?case by simp
next
  case (Cons kv c)
  obtain k e where kv: "kv = (k, e)" by (cases kv)
  show ?case
  proof (cases "c = []")
    case True
    with Cons.prems kv show ?thesis
      by (simp add: Collection_get_def Collection_last_def)
  next
    case False
    then have "last c \<in> set c" by simp
    with Cons.prems kv have ne: "ident e \<noteq> ident (snd (last c))" by auto
    let ?p' = "destroyStream k p"
    have sp': "streams ?p' = c"
      using Cons.prems kv by (simp add: Collection_delete_head)
    have ep': "effects ?p' = effects p @ teardown e"
      using Cons.prems kv by (simp add: effects_destroyStream Collection_get_def)
    have step: "destroyAllStreams_loop (Boolean True) (map fst (kv # c)) p =
                destroyAllStreams_loop (Boolean True) (map fst c) ?p'"
      using Cons.prems kv False ne by (simp add: Collection_get_def Collection_last_def)
    have ih: "streams (destroyAllStreams_loop (Boolean True) (map fst c) ?p') = [last c] \<and>
        effects (destroyAllStreams_loop (Boolean True) (map fst c) ?p') =
          effects ?p' @ concat (map (\<lambda>kv. teardown (snd kv)) (butlast c))"
      using Cons.prems False sp' by (intro Cons.IH) auto
    show ?thesis
      unfolding step using ih False kv by (simp add: ep')
  qed
qed


lemma streams_destroyAll_Ref:
  "streams (destroyAllStreams (Ref h) p) = filter (\<lambda>kv. fst kv = h) (streams p)"
  by (auto simp: destroyAllStreams_def Collection_keys_def streams_loop_plain intro: filter_cong)

lemma streams_destroyAll_Undefined:
  "streams (destroyAllStreams Undefined p) = []"
  by (simp add: destroyAllStreams_def Collection_keys_def streams_loop_plain filter_empty_conv)

lemma new_effects_destroyAll_plain:
  assumes "ex \<noteq> Boolean True" and "distinct (Collection_keys (streams p))"
  shows "new_effects p (destroyAllStreams ex p) =
     concat (map (\<lambda>kv. teardown (snd kv)) (filter (\<lambda>kv. ex \<noteq> Ref (fst kv)) (streams p)))"
proof -
  have d: "distinct (map fst (streams p))"
    using assms(2) by (simp add: Collection_keys_def)
  have "effects (destroyAllStreams ex p) =
     effects p @
     concat (map (\<lambda>k. case Collection_get (streams p) k of None \<Rightarrow> [] | Some e \<Rightarrow> teardown e)
               (filter (\<lambda>k. ex \<noteq> Ref k) (map fst (streams p))))"
    unfolding destroyAllStreams_def Collection_keys_def
    by (rule effects_loop_plain [OF assms(1) d])
  also have "\<dots> = effects p @
     concat (map (\<lambda>kv. teardown (snd kv)) (filter (\<lambda>kv. ex \<noteq> Ref (fst kv)) (streams p)))"
    by (simp only: teardown_keys_conv [OF d])
  finally show ?thesis by (simp add: new_effects_def)
qed

lemma new_effects_destroyAll_Ref:
  "distinct (Collection_keys (streams p)) \<Longrightarrow>
   new_effects p (destroyAllStreams (Ref h) p) =
     concat (map (\<lambda>kv. teardown (snd kv)) (filter (\<lambda>kv. fst kv \<noteq> h) (streams p)))"
  by (simp add: new_effects_destroyAll_plain eq_commute [of h])

lemma new_effects_destroyAll_Undefined:
  "distinct (Collection_keys (streams p)) \<Longrightarrow>
   new_effects p (destroyAllStreams Undefined p) =
     concat (map (\<lambda>kv. teardown (snd kv)) (streams p))"
  by (simp add: new_effects_destroyAll_plain)

text \<open>
  C5. \<^verbatim>\<open>destroyAllStreams(except)\<close>, case by case. With a stream as \<open>except\<close>, what is
  left of the collection is the entry of that stream, and the entries under every other
  key are destroyed, in the order of the collection. With \<open>except\<close> absent the
  collection is left empty and every entry is destroyed. With \<open>except\<close> the value
  \<^verbatim>\<open>true\<close>, on a collection that is not empty and whose entries are distinct objects,
  exactly the last entry is left, whatever stands before it, and the entries before it
  are destroyed.
\<close>

theorem destroyAllStreams_cases:
  "streams (destroyAllStreams (Ref h) p) = filter (\<lambda>kv. fst kv = h) (streams p) \<and>
   streams (destroyAllStreams Undefined p) = [] \<and>
   (distinct (Collection_keys (streams p)) \<longrightarrow>
      new_effects p (destroyAllStreams (Ref h) p) =
        concat (map (\<lambda>kv. teardown (snd kv)) (filter (\<lambda>kv. fst kv \<noteq> h) (streams p))) \<and>
      new_effects p (destroyAllStreams Undefined p) =
        concat (map (\<lambda>kv. teardown (snd kv)) (streams p))) \<and>
   (distinct (Collection_keys (streams p)) \<and>
    distinct (map (\<lambda>kv. ident (snd kv)) (streams p)) \<and> streams p \<noteq> [] \<longrightarrow>
      streams (destroyAllStreams (Boolean True) p) = [last (streams p)] \<and>
      Collection_last (streams (destroyAllStreams (Boolean True) p)) =
        Collection_last (streams p) \<and>
      new_effects p (destroyAllStreams (Boolean True) p) =
        concat (map (\<lambda>kv. teardown (snd kv)) (butlast (streams p))))"
proof (intro conjI impI)
  assume a: "distinct (Collection_keys (streams p)) \<and>
    distinct (map (\<lambda>kv. ident (snd kv)) (streams p)) \<and> streams p \<noteq> []"
  then have l: "streams (destroyAllStreams_loop (Boolean True) (map fst (streams p)) p) =
        [last (streams p)] \<and>
      effects (destroyAllStreams_loop (Boolean True) (map fst (streams p)) p) =
        effects p @ concat (map (\<lambda>kv. teardown (snd kv)) (butlast (streams p)))"
    by (intro loop_keep_last) (simp_all add: Collection_keys_def)
  from l show "streams (destroyAllStreams (Boolean True) p) = [last (streams p)]"
    by (simp add: destroyAllStreams_def Collection_keys_def)
  from l a show "Collection_last (streams (destroyAllStreams (Boolean True) p)) =
        Collection_last (streams p)"
    by (simp add: destroyAllStreams_def Collection_keys_def Collection_last_def)
  from l show "new_effects p (destroyAllStreams (Boolean True) p) =
        concat (map (\<lambda>kv. teardown (snd kv)) (butlast (streams p)))"
    by (simp add: destroyAllStreams_def Collection_keys_def new_effects_def)
qed (simp_all add: streams_destroyAll_Ref streams_destroyAll_Undefined
       new_effects_destroyAll_Ref new_effects_destroyAll_Undefined)


theorem destroyAllStreams_cases_witness:
  "distinct (Collection_keys (streams demo_player)) \<and>
   distinct (map (\<lambda>kv. ident (snd kv)) (streams demo_player)) \<and>
   streams demo_player \<noteq> [] \<and>
   streams (destroyAllStreams (Boolean True) demo_player) =
     [(External 5, \<lparr>ident = 6, transcoder = None, dispatcher = None, input = External 5\<rparr>)] \<and>
   new_effects demo_player (destroyAllStreams (Boolean True) demo_player) =
     [Destroy 0 ''end'', Kill 2, Destroy 4 ''end''] \<and>
   streams (destroyAllStreams (Ref (Output 2)) demo_player) =
     [(Output 2, \<lparr>ident = 3, transcoder = Some 2, dispatcher = Some 4, input = External 7\<rparr>)] \<and>
   new_effects demo_player (destroyAllStreams (Ref (Output 2)) demo_player) =
     [Destroy 0 ''end''] \<and>
   new_effects demo_player (destroyAllStreams Undefined demo_player) =
     [Destroy 0 ''end'', Kill 2, Destroy 4 ''end'']"
  using destroyAllStreams_cases [of "Output 2" demo_player]
  by (simp add: demo_player_def Collection_keys_def teardown_def)


section \<open>\<open>playPCMStream\<close>\<close>

lemma Collection_set_absent:
  "\<not> Collection_has c k \<Longrightarrow> Collection_set c k v = c @ [(k, v)]"
  by (induction c) (auto simp: Collection_has_def)

lemma Collection_last_set_new:
  "\<not> Collection_has c k \<Longrightarrow> Collection_last (Collection_set c k v) = Some v"
  by (simp add: Collection_set_absent Collection_last_def)

lemma Collection_get_set_same [simp]:
  "Collection_get (Collection_set c k v) k = Some v"
  by (induction c) (auto simp: Collection_get_def)

lemma Collection_get_set_other:
  "k' \<noteq> k \<Longrightarrow> Collection_get (Collection_set c k v) k' = Collection_get c k'"
  by (induction c) (auto simp: Collection_get_def)

lemma Collection_keys_set:
  "Collection_keys (Collection_set c k v) =
     (if Collection_has c k then Collection_keys c else Collection_keys c @ [k])"
  by (induction c) (force simp: Collection_keys_def Collection_has_def)+

lemma distinct_keys_set:
  "distinct (Collection_keys c) \<Longrightarrow> distinct (Collection_keys (Collection_set c k v))"
  by (simp add: Collection_keys_set) (simp add: Collection_keys_def Collection_has_def)

lemma filter_key_distinct:
  "distinct (map fst c) \<Longrightarrow>
   filter (\<lambda>kv. fst kv = k) c =
     (case Collection_get c k of None \<Rightarrow> [] | Some e \<Rightarrow> [(k, e)])"
proof (induction c)
  case Nil
  then show ?case by (simp add: Collection_get_def)
next
  case (Cons kv c)
  show ?case
  proof (cases "fst kv = k")
    case True
    with Cons.prems have "filter (\<lambda>kv. fst kv = k) c = []"
      by (fastforce simp: filter_empty_conv image_iff)
    with True show ?thesis by (cases kv) (simp add: Collection_get_def)
  next
    case False
    with Cons show ?thesis by (cases kv) (simp add: Collection_get_def)
  qed
qed

lemma effects_destroyAll_prefix:
  "distinct (Collection_keys (streams p)) \<Longrightarrow>
   effects (destroyAllStreams (Ref h) p) = effects p @ new_effects p (destroyAllStreams (Ref h) p)"
  by (simp add: new_effects_def destroyAllStreams_def Collection_keys_def effects_loop_plain)

lemma fields_destroyAll [simp]:
  "listeners (destroyAllStreams ex p) = listeners p"
  "next_id (destroyAllStreams ex p) = next_id p"
  "error_listeners (destroyAllStreams ex p) = error_listeners p"
  by (simp_all add: destroyAllStreams_def)

lemma playPCMStream_result:
  assumes "distinct (Collection_keys (streams p))"
  shows "playPCMStream s a p = Inr (next_id p, playPCMStream_outcome s a p)"
proof -
  have f: "streams (destroyAllStreams (Ref s) p) =
      (case Collection_get (streams p) s of None \<Rightarrow> [] | Some e \<Rightarrow> [(s, e)])"
    using assms by (simp add: streams_destroyAll_Ref filter_key_distinct Collection_keys_def)
  show ?thesis
  proof (cases "Collection_get (streams p) s")
    case None
    with f show ?thesis
      by (simp add: playPCMStream_def playPCMStream_outcome_def Let_def call_def on_def Collection_has_def
            assign_dispatcher_def Collection_get_def)
  next
    case (Some e)
    with f show ?thesis
      by (simp add: playPCMStream_def playPCMStream_outcome_def Let_def call_def on_def Collection_has_def
            assign_dispatcher_def Collection_get_def)
  qed
qed


lemma new_effects_outcome:
  "distinct (Collection_keys (streams p)) \<Longrightarrow>
   new_effects p (playPCMStream_outcome s a p) =
     concat (map (\<lambda>kv. teardown (snd kv)) (filter (\<lambda>kv. fst kv \<noteq> s) (streams p))) @
     [NewStreamDispatcher (next_id p) s (options_of (destructure a))]"
  using effects_destroyAll_prefix [of p s] new_effects_destroyAll_Ref [of p s]
  by (simp add: playPCMStream_outcome_def new_effects_def)

lemma teardown_in_new_effects:
  assumes "distinct (Collection_keys (streams p))" and "(k, e) \<in> set (streams p)" and "k \<noteq> s"
  shows "set (teardown e) \<subseteq> set (new_effects p (playPCMStream_outcome s a p))"
proof -
  from assms(2,3) have "(k, e) \<in> set (filter (\<lambda>kv. fst kv \<noteq> s) (streams p))" by simp
  then show ?thesis
    unfolding new_effects_outcome [OF assms(1)] by force
qed

lemma streams_outcome_keys [simp]:
  "Collection_keys (streams (playPCMStream_outcome s a p)) = [s]"
  by (simp add: playPCMStream_outcome_def Collection_keys_def)

text \<open>
  C1. On a collection with distinct keys, \<^verbatim>\<open>playPCMStream(s, opts)\<close> returns, and the
  collection it leaves has exactly one key, \<open>s\<close>. Every entry that stood under another
  key is gone from the collection, and among the calls made are \<^verbatim>\<open>kill\<close> on its
  transcoder, if it had one, and \<^verbatim>\<open>destroy('end')\<close> on its dispatcher, if it had one.
\<close>

theorem playPCMStream_single_entry:
  assumes "distinct (Collection_keys (streams p))"
  shows "\<exists>d p'. playPCMStream s a p = Inr (d, p') \<and>
     Collection_keys (streams p') = [s] \<and>
     (\<forall>k e. (k, e) \<in> set (streams p) \<and> k \<noteq> s \<longrightarrow>
        \<not> Collection_has (streams p') k \<and>
        (\<forall>t. transcoder e = Some t \<longrightarrow> Kill t \<in> set (new_effects p p')) \<and>
        (\<forall>d'. dispatcher e = Some d' \<longrightarrow> Destroy d' ''end'' \<in> set (new_effects p p')))"
proof (intro exI conjI allI impI)
  show "playPCMStream s a p = Inr (next_id p, playPCMStream_outcome s a p)"
    by (rule playPCMStream_result [OF assms])
  show "Collection_keys (streams (playPCMStream_outcome s a p)) = [s]" by simp
next
  fix k e assume ke: "(k, e) \<in> set (streams p) \<and> k \<noteq> s"
  then show "\<not> Collection_has (streams (playPCMStream_outcome s a p)) k"
    by (simp add: Collection_has_def playPCMStream_outcome_def)
  from ke have sub: "set (teardown e) \<subseteq> set (new_effects p (playPCMStream_outcome s a p))"
    using teardown_in_new_effects [OF assms] by blast
  { fix t assume "transcoder e = Some t"
    then have "Kill t \<in> set (teardown e)" by (simp add: Kill_in_teardown)
    with sub show "Kill t \<in> set (new_effects p (playPCMStream_outcome s a p))" by blast }
  { fix d' assume "dispatcher e = Some d'"
    then have "Destroy d' ''end'' \<in> set (teardown e)" by (simp add: Destroy_in_teardown)
    with sub show "Destroy d' ''end'' \<in> set (new_effects p (playPCMStream_outcome s a p))"
      by blast }
qed

lemmas eval_defs = demo_player_def playPCMStream_def destroyAllStreams_def Collection_keys_def
  Collection_get_def Collection_has_def Collection_delete_def Collection_last_def
  destroyStream_def assign_dispatcher_def call_def on_def options_of_def destructure_def
  new_effects_def Let_def

theorem playPCMStream_single_entry_witness:
  "distinct (Collection_keys (streams demo_player)) \<and>
   playPCMStream (External 9) None demo_player =
     Inr (7, \<lparr>streams =
                [(External 9, \<lparr>ident = 8, transcoder = None, dispatcher = Some 7,
                                input = External 9\<rparr>)],
              listeners =
                [(DispatcherObj 7, ''speaking'', DispatcherSpeaking),
                 (DispatcherObj 7, ''end'', DispatcherEnd (External 9)),
                 (DispatcherObj 7, ''error'', DispatcherError (External 9))],
              error_listeners = 0, next_id = 9,
              effects =
                [Destroy 0 ''end'', Kill 2, Destroy 4 ''end'',
                 NewStreamDispatcher 7 (External 9)
                   \<lparr>seek = Some 0, volume = Some 1, passes = Some 1\<rparr>]\<rparr>)"
  using playPCMStream_single_entry [of demo_player "External 9" None]
  by (simp add: eval_defs)

text \<open>
  C10. When \<^verbatim>\<open>playPCMStream(s, opts)\<close> finds an entry under \<open>s\<close> itself, with the
  dispatcher \<open>d0\<close>, and no dispatcher is held by two entries, then \<^verbatim>\<open>destroy\<close> is not
  called on \<open>d0\<close>: the entry stays, the same object with the same transcoder and input,
  and its dispatcher field now holds the new dispatcher. The entries under the other
  keys are destroyed and removed.
\<close>

theorem playPCMStream_same_key:
  assumes "distinct (Collection_keys (streams p))"
    and "distinct (dispatchers_of (streams p))"
    and "Collection_get (streams p) s = Some data"
    and "dispatcher data = Some d0"
  shows "\<exists>p'. playPCMStream s a p = Inr (next_id p, p') \<and>
     (\<forall>r. Destroy d0 r \<notin> set (new_effects p p')) \<and>
     streams p' = [(s, data\<lparr>dispatcher := Some (next_id p)\<rparr>)] \<and>
     (\<forall>k e. (k, e) \<in> set (streams p) \<and> k \<noteq> s \<longrightarrow>
        set (teardown e) \<subseteq> set (new_effects p p') \<and> \<not> Collection_has (streams p') k)"
proof (intro exI conjI allI impI)
  show "playPCMStream s a p = Inr (next_id p, playPCMStream_outcome s a p)"
    by (rule playPCMStream_result [OF assms(1)])
  show "streams (playPCMStream_outcome s a p) = [(s, data\<lparr>dispatcher := Some (next_id p)\<rparr>)]"
    using assms(3) by (simp add: playPCMStream_outcome_def)
next
  fix r
  show "Destroy d0 r \<notin> set (new_effects p (playPCMStream_outcome s a p))"
  proof
    assume "Destroy d0 r \<in> set (new_effects p (playPCMStream_outcome s a p))"
    then obtain k e where ke: "(k, e) \<in> set (streams p)" "k \<noteq> s"
      and "dispatcher e = Some d0"
      unfolding new_effects_outcome [OF assms(1)] by (auto simp: Destroy_in_teardown)
    with assms have "(k, e) = (s, data)"
      using dispatcher_owner_unique [of "streams p" k e s data d0]
        Collection_get_in_set [OF assms(3)] by blast
    with ke show False by simp
  qed
next
  fix k e assume ke: "(k, e) \<in> set (streams p) \<and> k \<noteq> s"
  then show "set (teardown e) \<subseteq> set (new_effects p (playPCMStream_outcome s a p))"
    using teardown_in_new_effects [OF assms(1)] by blast
  from ke show "\<not> Collection_has (streams (playPCMStream_outcome s a p)) k"
    by (simp add: Collection_has_def playPCMStream_outcome_def)
qed

theorem playPCMStream_same_key_witness:
  "distinct (Collection_keys (streams demo_player)) \<and>
   distinct (dispatchers_of (streams demo_player)) \<and>
   Collection_get (streams demo_player) (External 1) =
     Some \<lparr>ident = 1, transcoder = None, dispatcher = Some 0, input = External 1\<rparr> \<and>
   playPCMStream (External 1) None demo_player =
     Inr (7, \<lparr>streams =
                [(External 1, \<lparr>ident = 1, transcoder = None, dispatcher = Some 7,
                                input = External 1\<rparr>)],
              listeners =
                [(DispatcherObj 7, ''speaking'', DispatcherSpeaking),
                 (DispatcherObj 7, ''end'', DispatcherEnd (External 1)),
                 (DispatcherObj 7, ''error'', DispatcherError (External 1))],
              error_listeners = 0, next_id = 8,
              effects =
                [Kill 2, Destroy 4 ''end'',
                 NewStreamDispatcher 7 (External 1)
                   \<lparr>seek = Some 0, volume = Some 1, passes = Some 1\<rparr>]\<rparr>)"
  using playPCMStream_same_key [of demo_player "External 1"
          "\<lparr>ident = 1, transcoder = None, dispatcher = Some 0, input = External 1\<rparr>" 0 None]
  by (simp add: eval_defs)

lemma listeners_of_fresh:
  "src \<notin> fst ` set ls \<Longrightarrow> filter (\<lambda>x. fst x = src \<and> fst (snd x) = ev) ls = []"
  by (auto simp: filter_empty_conv)




section \<open>\<open>playUnknownStream\<close>\<close>

lemma destructure_options_of [simp]:
  "destructure (Some (options_of (destructure a))) = destructure a"
  by (simp add: destructure_def options_of_def Let_def split: option.splits)

lemma fst_destructure: "fst (destructure a) = option_value 0 seek a"
  by (simp add: destructure_def option_value_def Let_def split: option.splits)

lemma destructure_option_value:
  "destructure a = (option_value 0 seek a, option_value 1 volume a, option_value 1 passes a)"
  by (simp add: destructure_def option_value_def Let_def split: option.splits)

lemma options_of_destructure:
  "options_of (destructure a) =
     \<lparr>seek = Some (option_value 0 seek a), volume = Some (option_value 1 volume a),
        passes = Some (option_value 1 passes a)\<rparr>"
  by (simp add: destructure_option_value options_of_def)

lemma playPCMStream_resolved:
  "playPCMStream s (Some (options_of (destructure a))) p = playPCMStream s a p"
  by (simp add: playPCMStream_def)

lemma playUnknownStream_delegates:
  "playUnknownStream String stream a p =
     playPCMStream (Output (next_id p)) (Some (options_of (destructure a)))
       (playUnknownStream_registered String stream a p)"
  unfolding playUnknownStream_def playUnknownStream_registered_def Let_def call_def on_def
    ffmpegArguments_def
  by (rule arg_cong [where f = "playPCMStream (Output (next_id p))
         (Some (options_of (destructure a)))"], rule player.equality)
     (simp_all add: fst_destructure)

lemma filter_others_set:
  "filter (\<lambda>kv. fst kv \<noteq> k) (Collection_set c k v) = filter (\<lambda>kv. fst kv \<noteq> k) c"
  by (induction c) auto

lemma registered_simps [simp]:
  "next_id (playUnknownStream_registered String stream a p) = Suc (Suc (next_id p))"
  "error_listeners (playUnknownStream_registered String stream a p) = error_listeners p"
  "listeners (playUnknownStream_registered String stream a p) =
     listeners p @ [(TranscoderObj (next_id p), ''error'', TranscoderError stream)]"
  "Collection_get (streams (playUnknownStream_registered String stream a p)) (Output (next_id p)) =
     Some \<lparr>ident = Suc (next_id p), transcoder = Some (next_id p),
            dispatcher = None, input = stream\<rparr>"
  by (simp_all add: playUnknownStream_registered_def)

lemma distinct_registered:
  "distinct (Collection_keys (streams p)) \<Longrightarrow>
   distinct (Collection_keys (streams (playUnknownStream_registered String stream a p)))"
  by (simp add: playUnknownStream_registered_def distinct_keys_set)

lemma new_effects_trans:
  "effects p1 = effects p @ xs \<Longrightarrow> effects p2 = effects p1 @ ys \<Longrightarrow>
   new_effects p p2 = xs @ ys"
  by (simp add: new_effects_def)

lemma effects_outcome_prefix:
  assumes "distinct (Collection_keys (streams p))"
  shows "effects (playPCMStream_outcome s a p) =
         effects p @ new_effects p (playPCMStream_outcome s a p)"
proof -
  obtain ys where "effects (destroyAllStreams (Ref s) p) = effects p @ ys"
    using effects_destroyAll_prefix [OF assms] by blast
  then show ?thesis
    by (simp add: playPCMStream_outcome_def new_effects_def)
qed

text \<open>
  C7. For every stream, every options argument and every function \<open>String\<close>:
  \<^verbatim>\<open>playUnknownStream(stream, opts)\<close> is \<^verbatim>\<open>playPCMStream\<close> on the output of a new
  transcoder, with the options of the caller (each property as given, or its default),
  run on the player in which the transcoder has been started, its entry
  \<^verbatim>\<open>{ transcoder, input: stream }\<close> stored under its output and the listener of its
  \<^verbatim>\<open>error\<close> event registered; the result of \<^verbatim>\<open>playPCMStream\<close> is returned. The
  transcoder is started on \<open>stream\<close> with the arguments of the PCM format
  (\<^verbatim>\<open>-f s16le -ar 48000 -ac 2\<close>) followed by \<^verbatim>\<open>-ss\<close> and \<^verbatim>\<open>String\<close> of the \<^verbatim>\<open>seek\<close>
  the caller gave (of \<^verbatim>\<open>0\<close> when none was given). On a collection with distinct keys
  the call returns a dispatcher \<open>d\<close>, created on the output with the \<^verbatim>\<open>seek\<close>,
  \<^verbatim>\<open>volume\<close> and \<^verbatim>\<open>passes\<close> of the caller, and the collection holds one entry, under
  the output, with the transcoder, \<open>d\<close> and the input.
\<close>

theorem playUnknownStream_spec:
  "playUnknownStream String stream a p =
     playPCMStream (Output (next_id p))
       (Some \<lparr>seek = Some (option_value 0 seek a), volume = Some (option_value 1 volume a),
               passes = Some (option_value 1 passes a)\<rparr>)
       (playUnknownStream_registered String stream a p) \<and>
   playUnknownStream String stream a p =
     playPCMStream (Output (next_id p)) a (playUnknownStream_registered String stream a p) \<and>
   (distinct (Collection_keys (streams p)) \<longrightarrow>
      (\<exists>d p'. playUnknownStream String stream a p = Inr (d, p') \<and>
         streams p' =
           [(Output (next_id p),
             \<lparr>ident = Suc (next_id p), transcoder = Some (next_id p),
                dispatcher = Some d, input = stream\<rparr>)] \<and>
         new_effects p p' =
           Transcode (next_id p)
             \<lparr>cfg_type = ''ffmpeg'', cfg_media = stream,
                cfg_ffmpegArguments =
                  [''-analyzeduration'', ''0'', ''-loglevel'', ''0'', ''-f'', ''s16le'',
                   ''-ar'', ''48000'', ''-ac'', ''2'', ''-ss'', String (option_value 0 seek a)]\<rparr> #
           concat (map (\<lambda>kv. teardown (snd kv))
                     (filter (\<lambda>kv. fst kv \<noteq> Output (next_id p)) (streams p))) @
           [NewStreamDispatcher d (Output (next_id p))
              \<lparr>seek = Some (option_value 0 seek a), volume = Some (option_value 1 volume a),
                 passes = Some (option_value 1 passes a)\<rparr>]))"
proof (intro conjI impI)
  let ?t = "next_id p"
  let ?R = "playUnknownStream_registered String stream a p"
  let ?o = "Some (options_of (destructure a))"
  let ?x = "\<lparr>seek = Some (option_value 0 seek a), volume = Some (option_value 1 volume a),
              passes = Some (option_value 1 passes a)\<rparr>"
  have del: "playUnknownStream String stream a p = playPCMStream (Output ?t) ?o ?R"
    by (rule playUnknownStream_delegates)
  then show "playUnknownStream String stream a p = playPCMStream (Output ?t) (Some ?x) ?R"
    by (simp only: options_of_destructure)
  from del show "playUnknownStream String stream a p = playPCMStream (Output ?t) a ?R"
    by (simp only: playPCMStream_resolved)
  assume d: "distinct (Collection_keys (streams p))"
  let ?p' = "playPCMStream_outcome (Output ?t) ?o ?R"
  have dR: "distinct (Collection_keys (streams ?R))" by (rule distinct_registered [OF d])
  have r: "playUnknownStream String stream a p = Inr (Suc (Suc ?t), ?p')"
    using playPCMStream_result [OF dR, of "Output ?t" ?o] del by simp
  have s: "streams ?p' =
     [(Output ?t, \<lparr>ident = Suc ?t, transcoder = Some ?t, dispatcher = Some (Suc (Suc ?t)),
                   input = stream\<rparr>)]"
    by (simp add: playPCMStream_outcome_def)
  have eR: "effects ?R = effects p @
     [Transcode ?t \<lparr>cfg_type = ''ffmpeg'', cfg_media = stream,
        cfg_ffmpegArguments =
          [''-analyzeduration'', ''0'', ''-loglevel'', ''0'', ''-f'', ''s16le'',
           ''-ar'', ''48000'', ''-ac'', ''2'', ''-ss'', String (option_value 0 seek a)]\<rparr>]"
    by (simp add: playUnknownStream_registered_def)
  have fR: "filter (\<lambda>kv. fst kv \<noteq> Output ?t) (streams ?R) =
            filter (\<lambda>kv. fst kv \<noteq> Output ?t) (streams p)"
    by (simp add: playUnknownStream_registered_def filter_others_set)
  have n: "new_effects p ?p' =
     Transcode ?t \<lparr>cfg_type = ''ffmpeg'', cfg_media = stream,
        cfg_ffmpegArguments =
          [''-analyzeduration'', ''0'', ''-loglevel'', ''0'', ''-f'', ''s16le'',
           ''-ar'', ''48000'', ''-ac'', ''2'', ''-ss'', String (option_value 0 seek a)]\<rparr> #
     concat (map (\<lambda>kv. teardown (snd kv))
               (filter (\<lambda>kv. fst kv \<noteq> Output ?t) (streams p))) @
     [NewStreamDispatcher (Suc (Suc ?t)) (Output ?t) ?x]"
    unfolding new_effects_trans [OF eR effects_outcome_prefix [OF dR]]
      new_effects_outcome [OF dR] fR destructure_options_of
    by (simp add: options_of_destructure)
  show "\<exists>d p'. playUnknownStream String stream a p = Inr (d, p') \<and>
         streams p' =
           [(Output (next_id p),
             \<lparr>ident = Suc (next_id p), transcoder = Some (next_id p),
                dispatcher = Some d, input = stream\<rparr>)] \<and>
         new_effects p p' =
           Transcode (next_id p)
             \<lparr>cfg_type = ''ffmpeg'', cfg_media = stream,
                cfg_ffmpegArguments =
                  [''-analyzeduration'', ''0'', ''-loglevel'', ''0'', ''-f'', ''s16le'',
                   ''-ar'', ''48000'', ''-ac'', ''2'', ''-ss'', String (option_value 0 seek a)]\<rparr> #
           concat (map (\<lambda>kv. teardown (snd kv))
                     (filter (\<lambda>kv. fst kv \<noteq> Output (next_id p)) (streams p))) @
           [NewStreamDispatcher d (Output (next_id p)) ?x]"
    by (rule exI [of _ "Suc (Suc ?t)"], rule exI [of _ ?p']) (intro conjI r s n)
qed

theorem playUnknownStream_spec_witness:
  "distinct (Collection_keys (streams (AudioPlayer :: sample player))) \<and>
   (\<exists>d p'. playUnknownStream String_sample (External 1)
               (Some \<lparr>seek = Some Num1_5, volume = Some Num0_5, passes = Some Num3\<rparr>)
               AudioPlayer = Inr (d, p') \<and>
      streams p' =
        [(Output 0, \<lparr>ident = 1, transcoder = Some 0, dispatcher = Some d, input = External 1\<rparr>)] \<and>
      new_effects AudioPlayer p' =
        [Transcode 0
           \<lparr>cfg_type = ''ffmpeg'', cfg_media = External 1,
              cfg_ffmpegArguments =
                [''-analyzeduration'', ''0'', ''-loglevel'', ''0'', ''-f'', ''s16le'',
                 ''-ar'', ''48000'', ''-ac'', ''2'', ''-ss'', ''1.5'']\<rparr>,
         NewStreamDispatcher d (Output 0)
           \<lparr>seek = Some Num1_5, volume = Some Num0_5, passes = Some Num3\<rparr>]) \<and>
   (\<exists>d p'. playUnknownStream String_sample (External 1)
               (Some \<lparr>seek = Some Num1e21, volume = None, passes = None\<rparr>)
               AudioPlayer = Inr (d, p') \<and>
      new_effects AudioPlayer p' =
        [Transcode 0
           \<lparr>cfg_type = ''ffmpeg'', cfg_media = External 1,
              cfg_ffmpegArguments =
                [''-analyzeduration'', ''0'', ''-loglevel'', ''0'', ''-f'', ''s16le'',
                 ''-ar'', ''48000'', ''-ac'', ''2'', ''-ss'', ''1e+21'']\<rparr>,
         NewStreamDispatcher d (Output 0)
           \<lparr>seek = Some Num1e21, volume = Some Num1, passes = Some Num1\<rparr>])"
proof -
  let ?P = "AudioPlayer :: sample player"
  let ?a = "Some \<lparr>seek = Some Num1_5, volume = Some Num0_5, passes = Some Num3\<rparr>"
  let ?b = "Some \<lparr>seek = Some Num1e21, volume = None, passes = None\<rparr>"
  have h: "distinct (Collection_keys (streams ?P))"
    by (simp add: AudioPlayer_def Collection_keys_def)
  have i: "next_id ?P = 0" "streams ?P = []"
    by (simp_all add: AudioPlayer_def)
  have oa: "option_value 0 seek ?a = Num1_5" "option_value 1 volume ?a = Num0_5"
    "option_value 1 passes ?a = Num3"
    by (simp_all add: option_value_def)
  have ob: "option_value 0 seek ?b = Num1e21" "option_value 1 volume ?b = Num1"
    "option_value 1 passes ?b = Num1"
    by (simp_all add: option_value_def one_sample_def)
  from playUnknownStream_spec [of String_sample "External 1" ?a ?P,
         THEN conjunct2, THEN conjunct2, THEN mp, OF h]
  have "\<exists>d p'. playUnknownStream String_sample (External 1) ?a ?P = Inr (d, p') \<and>
      streams p' =
        [(Output 0, \<lparr>ident = 1, transcoder = Some 0, dispatcher = Some d, input = External 1\<rparr>)] \<and>
      new_effects ?P p' =
        [Transcode 0
           \<lparr>cfg_type = ''ffmpeg'', cfg_media = External 1,
              cfg_ffmpegArguments =
                [''-analyzeduration'', ''0'', ''-loglevel'', ''0'', ''-f'', ''s16le'',
                 ''-ar'', ''48000'', ''-ac'', ''2'', ''-ss'', ''1.5'']\<rparr>,
         NewStreamDispatcher d (Output 0)
           \<lparr>seek = Some Num1_5, volume = Some Num0_5, passes = Some Num3\<rparr>]"
    unfolding oa i by simp
  moreover from playUnknownStream_spec [of String_sample "External 1" ?b ?P,
         THEN conjunct2, THEN conjunct2, THEN mp, OF h]
  have "\<exists>d p'. playUnknownStream String_sample (External 1) ?b ?P = Inr (d, p') \<and>
      new_effects ?P p' =
        [Transcode 0
           \<lparr>cfg_type = ''ffmpeg'', cfg_media = External 1,
              cfg_ffmpegArguments =
                [''-analyzeduration'', ''0'', ''-loglevel'', ''0'', ''-f'', ''s16le'',
                 ''-ar'', ''48000'', ''-ac'', ''2'', ''-ss'', ''1e+21'']\<rparr>,
         NewStreamDispatcher d (Output 0)
           \<lparr>seek = Some Num1e21, volume = Some Num1, passes = Some Num1\<rparr>]"
    unfolding ob i by auto
  ultimately show ?thesis using h by blast
qed

section \<open>The \<open>error\<close> event of the transcoder\<close>

lemma emissions_append [simp]: "emissions (xs @ ys) = emissions xs @ emissions ys"
  by (induction xs rule: emissions.induct) simp_all

lemma emissions_teardown [simp]: "emissions (teardown e) = []"
  by (simp add: teardown_def split: option.splits)

lemma emissions_run_TranscoderError:
  "emissions (new_effects p (run_listener (TranscoderError stream) e p)) =
     (if error_listeners p > 0 then [(''error'', e)] else []) @
     [(''warn'', Str (''prism transcoder error - '' @ template e))]"
  by (simp add: new_effects_def call_def Let_def effects_destroyStream split: option.splits)

text \<open>
  C2, as the source has it. After \<^verbatim>\<open>playUnknownStream\<close>, on every \<^verbatim>\<open>error\<close> event \<open>e\<close>
  of the transcoder the player always emits \<^verbatim>\<open>warn\<close> with the message
  \<^verbatim>\<open>prism transcoder error - \<close> followed by \<open>e\<close>; when the player has a listener of
  \<^verbatim>\<open>error\<close>, it emits \<^verbatim>\<open>error\<close> with \<open>e\<close> first and the \<^verbatim>\<open>warn\<close> after it. The
  transcoder is a new object, one that has no listener yet.
\<close>

theorem transcoder_error_signals:
  assumes "distinct (Collection_keys (streams p))"
    and "TranscoderObj (next_id p) \<notin> fst ` set (listeners p)"
  shows "\<exists>d p'. playUnknownStream String stream a p = Inr (d, p') \<and>
     (\<forall>e. emissions (new_effects p' (emit_from (TranscoderObj (next_id p)) ''error'' e p')) =
        (if error_listeners p > 0 then [(''error'', e)] else []) @
        [(''warn'', Str (''prism transcoder error - '' @ template e))])"
proof -
  let ?t = "next_id p"
  let ?R = "playUnknownStream_registered String stream a p"
  let ?o = "Some (options_of (destructure a))"
  let ?p' = "playPCMStream_outcome (Output ?t) ?o ?R"
  have dR: "distinct (Collection_keys (streams ?R))"
    by (rule distinct_registered [OF assms(1)])
  have r: "playUnknownStream String stream a p = Inr (Suc (Suc ?t), ?p')"
    using playPCMStream_result [OF dR, of "Output ?t" ?o] playUnknownStream_delegates [of String stream a p]
    by simp
  have l: "listeners_of (TranscoderObj ?t) ''error'' ?p' = [TranscoderError stream]"
    using assms(2)
    by (simp add: listeners_of_def playPCMStream_outcome_def listeners_of_fresh)
  have el: "error_listeners ?p' = error_listeners p"
    by (simp add: playPCMStream_outcome_def)
  have e: "\<forall>e. emissions (new_effects ?p' (emit_from (TranscoderObj ?t) ''error'' e ?p')) =
        (if error_listeners p > 0 then [(''error'', e)] else []) @
        [(''warn'', Str (''prism transcoder error - '' @ template e))]"
    using emissions_run_TranscoderError [of ?p' stream]
    by (simp add: emit_from_def l el)
  show ?thesis
    by (rule exI [of _ "Suc (Suc ?t)"], rule exI [of _ ?p']) (intro conjI r e)
qed


text \<open>
  A first \<^verbatim>\<open>playUnknownStream\<close> on a new player that has \<open>n\<close> listeners of \<^verbatim>\<open>error\<close>.
\<close>

lemma playUnknownStream_AudioPlayer:
  "playUnknownStream String_sample (External 1) None (AudioPlayer\<lparr>error_listeners := n\<rparr>) =
     Inr (2, \<lparr>streams =
                [(Output 0, \<lparr>ident = 1, transcoder = Some 0, dispatcher = Some 2,
                              input = External 1\<rparr>)],
              listeners =
                [(TranscoderObj 0, ''error'', TranscoderError (External 1)),
                 (DispatcherObj 2, ''speaking'', DispatcherSpeaking),
                 (DispatcherObj 2, ''end'', DispatcherEnd (Output 0)),
                 (DispatcherObj 2, ''error'', DispatcherError (Output 0))],
              error_listeners = n, next_id = 3,
              effects =
                [Transcode 0
                   \<lparr>cfg_type = ''ffmpeg'', cfg_media = External 1,
                      cfg_ffmpegArguments =
                        [''-analyzeduration'', ''0'', ''-loglevel'', ''0'', ''-f'', ''s16le'',
                         ''-ar'', ''48000'', ''-ac'', ''2'', ''-ss'', ''0'']\<rparr>,
                 NewStreamDispatcher 2 (Output 0)
                   \<lparr>seek = Some 0, volume = Some 1, passes = Some 1\<rparr>]\<rparr>)"
proof -
  let ?p = "AudioPlayer\<lparr>error_listeners := n\<rparr>"
  let ?R = "playUnknownStream_registered String_sample (External 1) None ?p"
  have R: "?R = \<lparr>streams = [(Output 0, \<lparr>ident = 1, transcoder = Some 0, dispatcher = None,
                                         input = External 1\<rparr>)],
                  listeners = [(TranscoderObj 0, ''error'', TranscoderError (External 1))],
                  error_listeners = n, next_id = 2,
                  effects =
                    [Transcode 0
                       \<lparr>cfg_type = ''ffmpeg'', cfg_media = External 1,
                          cfg_ffmpegArguments =
                            [''-analyzeduration'', ''0'', ''-loglevel'', ''0'', ''-f'', ''s16le'',
                             ''-ar'', ''48000'', ''-ac'', ''2'', ''-ss'', ''0'']\<rparr>]\<rparr>"
    by (simp add: playUnknownStream_registered_def AudioPlayer_def option_value_def
          zero_sample_def)
  have d: "distinct (Collection_keys (streams ?R))"
    unfolding R by (simp add: Collection_keys_def)
  have n: "next_id ?p = 0" by (simp add: AudioPlayer_def)
  show ?thesis
    unfolding playUnknownStream_delegates n playPCMStream_result [OF d]
    unfolding R
    by (simp add: playPCMStream_outcome_def destroyAllStreams_def Collection_keys_def
          Collection_get_def options_of_def destructure_def)
qed

lemma started_AudioPlayer:
  "started (AudioPlayer\<lparr>error_listeners := n\<rparr>) =
     \<lparr>streams =
        [(Output 0, \<lparr>ident = 1, transcoder = Some 0, dispatcher = Some 2, input = External 1\<rparr>)],
      listeners =
        [(TranscoderObj 0, ''error'', TranscoderError (External 1)),
         (DispatcherObj 2, ''speaking'', DispatcherSpeaking),
         (DispatcherObj 2, ''end'', DispatcherEnd (Output 0)),
         (DispatcherObj 2, ''error'', DispatcherError (Output 0))],
      error_listeners = n, next_id = 3,
      effects =
        [Transcode 0
           \<lparr>cfg_type = ''ffmpeg'', cfg_media = External 1,
              cfg_ffmpegArguments =
                [''-analyzeduration'', ''0'', ''-loglevel'', ''0'', ''-f'', ''s16le'',
                 ''-ar'', ''48000'', ''-ac'', ''2'', ''-ss'', ''0'']\<rparr>,
         NewStreamDispatcher 2 (Output 0) \<lparr>seek = Some 0, volume = Some 1, passes = Some 1\<rparr>]\<rparr>"
  by (simp only: started_def playUnknownStream_AudioPlayer sum.case prod.case)

lemma AudioPlayer_no_listener: "AudioPlayer\<lparr>error_listeners := 0\<rparr> = AudioPlayer"
  by (simp add: AudioPlayer_def)

lemmas eval_emit_defs = emit_from_def listeners_of_def destroyStream_def Collection_get_def
  Collection_delete_def call_def new_effects_def Let_def

theorem transcoder_error_signals_witness:
  "distinct (Collection_keys
      (streams ((AudioPlayer :: sample player)\<lparr>error_listeners := 1\<rparr>))) \<and>
   TranscoderObj (next_id ((AudioPlayer :: sample player)\<lparr>error_listeners := 1\<rparr>))
     \<notin> fst ` set (listeners ((AudioPlayer :: sample player)\<lparr>error_listeners := 1\<rparr>)) \<and>
   (\<exists>d p'. playUnknownStream String_sample (External 1) None (AudioPlayer\<lparr>error_listeners := 1\<rparr>) =
             Inr (d, p') \<and>
      emissions (new_effects p' (emit_from (TranscoderObj 0) ''error'' (Error ''boom'') p')) =
        [(''error'', Error ''boom''), (''warn'', Str ''prism transcoder error - Error: boom'')])"
proof -
  let ?p = "(AudioPlayer :: sample player)\<lparr>error_listeners := 1\<rparr>"
  have h1: "distinct (Collection_keys (streams ?p))"
    by (simp add: AudioPlayer_def Collection_keys_def)
  have h2: "TranscoderObj (next_id ?p) \<notin> fst ` set (listeners ?p)"
    by (simp add: AudioPlayer_def)
  from transcoder_error_signals [OF h1 h2, of String_sample "External 1" None]
  obtain d p' where r: "playUnknownStream String_sample (External 1) None ?p = Inr (d, p')"
    and e: "\<forall>e. emissions (new_effects p' (emit_from (TranscoderObj (next_id ?p)) ''error'' e p')) =
        (if error_listeners ?p > 0 then [(''error'', e)] else []) @
        [(''warn'', Str (''prism transcoder error - '' @ template e))]"
    by blast
  from e [rule_format, of "Error ''boom''"]
  have "emissions (new_effects p' (emit_from (TranscoderObj 0) ''error'' (Error ''boom'') p')) =
        [(''error'', Error ''boom''), (''warn'', Str ''prism transcoder error - Error: boom'')]"
    by (simp add: AudioPlayer_def)
  with h1 h2 r show ?thesis by blast
qed

text \<open>
  C2 as it is stated fails: with one listener of \<^verbatim>\<open>error\<close> on the player, the
  \<^verbatim>\<open>error\<close> event of the transcoder makes the player emit \<^verbatim>\<open>error\<close> and \<^verbatim>\<open>warn\<close>
  both.
\<close>

theorem transcoder_error_warn_counterexample:
  "\<not> isl (playUnknownStream String_sample (External 1) None (AudioPlayer\<lparr>error_listeners := 1\<rparr>)) \<and>
   error_listeners (started (AudioPlayer\<lparr>error_listeners := 1\<rparr>)) = 1 \<and>
   emissions (new_effects (started (AudioPlayer\<lparr>error_listeners := 1\<rparr>))
      (emit_from (TranscoderObj 0) ''error'' (Error ''boom'')
         (started (AudioPlayer\<lparr>error_listeners := 1\<rparr>)))) =
     [(''error'', Error ''boom''), (''warn'', Str ''prism transcoder error - Error: boom'')]"
  unfolding started_AudioPlayer playUnknownStream_AudioPlayer
  by (simp add: eval_emit_defs)

text \<open>
  C3. The listener of the transcoder's \<^verbatim>\<open>error\<close> calls \<^verbatim>\<open>destroyStream\<close> with the
  input stream, and the entry stands under the output of the transcoder. After
  \<^verbatim>\<open>playUnknownStream\<close> on a new player the \<^verbatim>\<open>error\<close> event leaves the entry in the
  collection; the transcoder is not killed and the dispatcher is not destroyed, the
  only call made is the emission of \<^verbatim>\<open>warn\<close>.
\<close>

theorem transcoder_error_keeps_entry:
  "\<not> isl (playUnknownStream String_sample (External 1) None AudioPlayer) \<and>
   streams (started AudioPlayer) =
     [(Output 0, \<lparr>ident = 1, transcoder = Some 0, dispatcher = Some 2, input = External 1\<rparr>)] \<and>
   streams (emit_from (TranscoderObj 0) ''error'' (Error ''boom'') (started AudioPlayer)) =
     [(Output 0, \<lparr>ident = 1, transcoder = Some 0, dispatcher = Some 2, input = External 1\<rparr>)] \<and>
   new_effects (started AudioPlayer)
      (emit_from (TranscoderObj 0) ''error'' (Error ''boom'') (started AudioPlayer)) =
     [Emit ''warn'' (Str ''prism transcoder error - Error: boom'')]"
  using started_AudioPlayer [of 0] playUnknownStream_AudioPlayer [of 0]
  unfolding AudioPlayer_no_listener
  by (simp add: eval_emit_defs)

section \<open>\<open>currentTranscoder\<close>\<close>

text \<open>
  C6 as it is stated fails on the empty collection: \<^verbatim>\<open>this.streams.last()\<close> is
  \<^verbatim>\<open>undefined\<close> and reading its \<^verbatim>\<open>transcoder\<close> throws a \<^verbatim>\<open>TypeError\<close>.
\<close>

theorem currentTranscoder_empty_counterexample:
  "streams (AudioPlayer :: sample player) = [] \<and>
   currentTranscoder (AudioPlayer :: sample player) = (Inl TypeError, AudioPlayer)"
  by (simp add: currentTranscoder_def AudioPlayer_def Collection_last_def)

text \<open>
  C6, as the source has it. On a collection that is not empty \<^verbatim>\<open>currentTranscoder\<close>
  gives the \<^verbatim>\<open>transcoder\<close> field of the last entry (which is \<^verbatim>\<open>undefined\<close> when the
  entry has none) and leaves the player as it is; on the empty collection it throws a
  \<^verbatim>\<open>TypeError\<close>, and the player is as it was.
\<close>

theorem currentTranscoder_spec:
  "(streams p \<noteq> [] \<longrightarrow>
      currentTranscoder p = (Inr (transcoder (snd (last (streams p)))), p)) \<and>
   (streams p = [] \<longrightarrow> currentTranscoder p = (Inl TypeError, p))"
  by (simp add: currentTranscoder_def Collection_last_def)

theorem currentTranscoder_spec_witness:
  "streams demo_player \<noteq> [] \<and> currentTranscoder demo_player = (Inr None, demo_player) \<and>
   streams (destroyStream (External 5) demo_player) \<noteq> [] \<and>
   fst (currentTranscoder (destroyStream (External 5) demo_player)) = Inr (Some 2) \<and>
   streams (AudioPlayer :: sample player) = [] \<and>
   fst (currentTranscoder (AudioPlayer :: sample player)) = Inl TypeError"
  using currentTranscoder_spec [of demo_player]
    currentTranscoder_spec [of "destroyStream (External 5) demo_player"]
    currentTranscoder_spec [of "AudioPlayer :: sample player"]
  by (simp add: demo_player_def Collection_delete_def AudioPlayer_def)

section \<open>The players that are reached\<close>

text \<open>
  Every player reached through the methods and the events is well formed, so the
  hypotheses of the theorems above hold of it; and it has at most one stream.
\<close>

lemma set_transcoders_of_filter:
  "set (transcoders_of (filter P c)) \<subseteq> set (transcoders_of c)"
  by (induction c) (auto split: option.splits)

lemma set_dispatchers_of_filter:
  "set (dispatchers_of (filter P c)) \<subseteq> set (dispatchers_of c)"
  by (induction c) (auto split: option.splits)

lemma distinct_transcoders_of_filter:
  "distinct (transcoders_of c) \<Longrightarrow> distinct (transcoders_of (filter P c))"
  using set_transcoders_of_filter [of P]
  by (induction c) (auto split: option.splits)

lemma distinct_dispatchers_of_filter:
  "distinct (dispatchers_of c) \<Longrightarrow> distinct (dispatchers_of (filter P c))"
  using set_dispatchers_of_filter [of P]
  by (induction c) (auto split: option.splits)

lemma well_formed_AudioPlayer: "well_formed (AudioPlayer\<lparr>error_listeners := n\<rparr>)"
  by (simp add: well_formed_def AudioPlayer_def Collection_keys_def)

lemma well_formed_listen: "well_formed p \<Longrightarrow> well_formed (p\<lparr>error_listeners := n\<rparr>)"
  by (simp add: well_formed_def)

lemma well_formed_destroyStream: "well_formed p \<Longrightarrow> well_formed (destroyStream h p)"
  by (simp add: well_formed_def Collection_keys_def Collection_delete_def distinct_map_filter
        distinct_transcoders_of_filter distinct_dispatchers_of_filter)

lemma well_formed_loop:
  "well_formed p \<Longrightarrow> well_formed (destroyAllStreams_loop ex ks p)"
  by (induction ks arbitrary: p) (auto simp: well_formed_destroyStream)

lemma well_formed_destroyAllStreams:
  "well_formed p \<Longrightarrow> well_formed (destroyAllStreams ex p)"
  by (simp add: destroyAllStreams_def well_formed_loop)

lemma well_formed_outcome:
  "well_formed p \<Longrightarrow> well_formed (playPCMStream_outcome s a p)"
  by (auto simp: well_formed_def playPCMStream_outcome_def Collection_keys_def
           split: option.splits)

lemma well_formed_playPCMStream:
  assumes "well_formed p" and "playPCMStream s a p = Inr (d, p')"
  shows "well_formed p'"
proof -
  from assms(1) have "distinct (Collection_keys (streams p))" by (simp add: well_formed_def)
  from playPCMStream_result [OF this, of s a] assms(2)
  have "p' = playPCMStream_outcome s a p" by simp
  with assms(1) show ?thesis by (simp add: well_formed_outcome)
qed

lemma well_formed_registered_listeners:
  "well_formed p \<Longrightarrow>
   \<forall>x \<in> set (listeners (playUnknownStream_registered String s a p)).
      emitter_id (fst x) < next_id (playUnknownStream_registered String s a p)"
  by (auto simp: well_formed_def)

lemma well_formed_playUnknownStream:
  assumes "well_formed p" and "playUnknownStream String s a p = Inr (d, p')"
  shows "well_formed p'"
proof -
  let ?R = "playUnknownStream_registered String s a p"
  let ?o = "Some (options_of (destructure a))"
  from assms(1) have "distinct (Collection_keys (streams p))" by (simp add: well_formed_def)
  then have dR: "distinct (Collection_keys (streams ?R))" by (rule distinct_registered)
  from playPCMStream_result [OF dR, of "Output (next_id p)" ?o] assms(2)
  have p': "p' = playPCMStream_outcome (Output (next_id p)) ?o ?R"
    by (simp add: playUnknownStream_delegates)
  have "\<forall>x \<in> set (listeners p'). emitter_id (fst x) < next_id p'"
    using well_formed_registered_listeners [OF assms(1), of String s a]
    unfolding p' by (auto simp: playPCMStream_outcome_def split: option.splits)
  then show ?thesis
    unfolding p' by (simp add: well_formed_def playPCMStream_outcome_def Collection_keys_def)
qed

lemma well_formed_call: "well_formed p \<Longrightarrow> well_formed (call e p)"
  by (simp add: well_formed_def call_def)

lemma well_formed_run_listener: "well_formed p \<Longrightarrow> well_formed (run_listener l v p)"
  by (cases l) (simp_all add: Let_def well_formed_call well_formed_destroyStream)

lemma well_formed_fold:
  "well_formed p \<Longrightarrow> well_formed (fold (\<lambda>l. run_listener l v) ls p)"
  by (induction ls arbitrary: p) (simp_all add: well_formed_run_listener)

lemma well_formed_emit_from: "well_formed p \<Longrightarrow> well_formed (emit_from src ev v p)"
  by (simp add: emit_from_def well_formed_fold)

lemma reachable_well_formed: "reachable String p \<Longrightarrow> well_formed p"
proof (induction rule: reachable.induct)
  case (new n)
  show ?case by (rule well_formed_AudioPlayer)
next
  case (listen p n)
  then show ?case by (simp only: well_formed_listen)
next
  case (destroyStream p h)
  then show ?case by (simp only: well_formed_destroyStream)
next
  case (destroyAllStreams p ex)
  then show ?case by (simp only: well_formed_destroyAllStreams)
next
  case (playPCMStream p s a d p')
  then show ?case using well_formed_playPCMStream by blast
next
  case (playUnknownStream p s a d p')
  then show ?case using well_formed_playUnknownStream by blast
next
  case (emit p src ev v)
  then show ?case by (simp only: well_formed_emit_from)
qed

lemma well_formed_fresh:
  assumes "well_formed p"
  shows "DispatcherObj (next_id p) \<notin> fst ` set (listeners p)"
    and "TranscoderObj (next_id p) \<notin> fst ` set (listeners p)"
  using assms by (force simp: well_formed_def)+


lemma reachable_hypotheses:
  assumes "reachable String p"
  shows "distinct (Collection_keys (streams p))"
    and "distinct (map (\<lambda>kv. ident (snd kv)) (streams p))"
    and "distinct (transcoders_of (streams p))"
    and "distinct (dispatchers_of (streams p))"
    and "DispatcherObj (next_id p) \<notin> fst ` set (listeners p)"
    and "TranscoderObj (next_id p) \<notin> fst ` set (listeners p)"
  using reachable_well_formed [OF assms] well_formed_fresh [of p]
  by (simp_all add: well_formed_def)

lemma playPCMStream_twice:
  assumes "distinct (Collection_keys (streams p))" and "s1 \<noteq> s2"
  shows "\<exists>d1 p1 d2 p2.
     playPCMStream s1 a1 p = Inr (d1, p1) \<and> playPCMStream s2 a2 p1 = Inr (d2, p2) \<and>
     Collection_keys (streams p2) = [s2] \<and>
     Destroy d1 ''end'' \<in> set (new_effects p1 p2) \<and>
     (\<exists>data. Collection_get (streams p2) s2 = Some data \<and> dispatcher data = Some d2)"
proof -
  let ?p1 = "playPCMStream_outcome s1 a1 p"
  let ?p2 = "playPCMStream_outcome s2 a2 ?p1"
  have d1: "distinct (Collection_keys (streams ?p1))" by simp
  have r1: "playPCMStream s1 a1 p = Inr (next_id p, ?p1)"
    by (rule playPCMStream_result [OF assms(1)])
  have r2: "playPCMStream s2 a2 ?p1 = Inr (next_id ?p1, ?p2)"
    by (rule playPCMStream_result [OF d1])
  have k: "Collection_keys (streams ?p2) = [s2]" by simp
  obtain e where e: "streams ?p1 = [(s1, e)]" "dispatcher e = Some (next_id p)"
    by (cases "Collection_get (streams p) s1") (simp_all add: playPCMStream_outcome_def)
  have x: "Destroy (next_id p) ''end'' \<in> set (new_effects ?p1 ?p2)"
    using assms(2) e by (simp add: new_effects_outcome [OF d1] Destroy_in_teardown)
  have g: "\<exists>data. Collection_get (streams ?p2) s2 = Some data \<and>
             dispatcher data = Some (next_id ?p1)"
    by (simp add: playPCMStream_outcome_def [of s2] Collection_get_def split: option.splits)
  from r1 r2 k x g show ?thesis by blast
qed

lemma transcoder_error_leaves_entry:
  assumes "distinct (Collection_keys (streams p))"
    and "TranscoderObj (next_id p) \<notin> fst ` set (listeners p)"
    and "stream \<noteq> Output (next_id p)"
  shows "\<exists>d p'. playUnknownStream String stream a p = Inr (d, p') \<and>
     Collection_keys (streams p') = [Output (next_id p)] \<and>
     (\<forall>e. streams (emit_from (TranscoderObj (next_id p)) ''error'' e p') = streams p')"
proof -
  let ?t = "next_id p"
  let ?R = "playUnknownStream_registered String stream a p"
  let ?o = "Some (options_of (destructure a))"
  let ?p' = "playPCMStream_outcome (Output ?t) ?o ?R"
  have dR: "distinct (Collection_keys (streams ?R))"
    by (rule distinct_registered [OF assms(1)])
  have r: "playUnknownStream String stream a p = Inr (Suc (Suc ?t), ?p')"
    using playPCMStream_result [OF dR, of "Output ?t" ?o] playUnknownStream_delegates [of String stream a p]
    by simp
  have l: "listeners_of (TranscoderObj ?t) ''error'' ?p' = [TranscoderError stream]"
    using assms(2)
    by (simp add: listeners_of_def playPCMStream_outcome_def listeners_of_fresh)
  have k: "Collection_keys (streams ?p') = [Output ?t]" by simp
  have n: "Collection_get (streams ?p') stream = None"
    using assms(3) by (simp add: playPCMStream_outcome_def Collection_get_def)
  have e: "\<forall>e. streams (emit_from (TranscoderObj ?t) ''error'' e ?p') = streams ?p'"
    by (simp add: emit_from_def l Let_def call_def Collection_delete_absent [OF n])
  from r k e show ?thesis by blast
qed

lemma length_streams_loop:
  "length (streams (destroyAllStreams_loop ex ks p)) \<le> length (streams p)"
proof (induction ks arbitrary: p)
  case Nil
  show ?case by simp
next
  case (Cons k ks)
  have "length (streams (destroyAllStreams_loop ex ks (destroyStream k p))) \<le>
        length (streams (destroyStream k p))" by (rule Cons.IH)
  also have "\<dots> \<le> length (streams p)" by (simp add: Collection_delete_def)
  finally show ?case using Cons.IH [of p] by auto
qed

lemma length_streams_run_listener:
  "length (streams (run_listener l v p)) \<le> length (streams p)"
  by (cases l) (simp_all add: Let_def call_def Collection_delete_def)

lemma length_streams_fold:
  "length (streams (fold (\<lambda>l. run_listener l v) ls p)) \<le> length (streams p)"
proof (induction ls arbitrary: p)
  case Nil
  show ?case by simp
next
  case (Cons l ls)
  have "length (streams (fold (\<lambda>l. run_listener l v) ls (run_listener l v p))) \<le>
        length (streams (run_listener l v p))" by (rule Cons.IH)
  also have "\<dots> \<le> length (streams p)" by (rule length_streams_run_listener)
  finally show ?case by simp
qed

lemma reachable_at_most_one: "reachable String p \<Longrightarrow> length (streams p) \<le> 1"
proof (induction rule: reachable.induct)
  case (new n)
  show ?case by (simp add: AudioPlayer_def)
next
  case (listen p n)
  then show ?case by simp
next
  case (destroyStream p h)
  have "length (streams (destroyStream h p)) \<le> length (streams p)"
    by (simp add: Collection_delete_def)
  with destroyStream.IH show ?case by simp
next
  case (destroyAllStreams p ex)
  have "length (streams (destroyAllStreams ex p)) \<le> length (streams p)"
    by (simp add: destroyAllStreams_def length_streams_loop)
  with destroyAllStreams.IH show ?case by simp
next
  case (playPCMStream p s a d p')
  from reachable_hypotheses(1) [OF playPCMStream.hyps(1)] playPCMStream.hyps(2)
  have "p' = playPCMStream_outcome s a p" by (simp add: playPCMStream_result)
  then show ?case by (simp add: playPCMStream_outcome_def)
next
  case (playUnknownStream p s a d p')
  have "distinct (Collection_keys (streams (playUnknownStream_registered String s a p)))"
    by (rule distinct_registered [OF reachable_hypotheses(1) [OF playUnknownStream.hyps(1)]])
  from playPCMStream_result [OF this, of "Output (next_id p)" "Some (options_of (destructure a))"]
    playUnknownStream.hyps(2)
  have "p' = playPCMStream_outcome (Output (next_id p)) (Some (options_of (destructure a)))
               (playUnknownStream_registered String s a p)"
    by (simp add: playUnknownStream_delegates)
  then show ?case by (simp add: playPCMStream_outcome_def)
next
  case (emit p src ev v)
  have "length (streams (emit_from src ev v p)) \<le> length (streams p)"
    by (simp add: emit_from_def length_streams_fold)
  with emit.IH show ?case by simp
qed

section \<open>The play methods return\<close>

text \<open>
  \<^verbatim>\<open>this.streams.get(stream).dispatcher = dispatcher\<close> in \<^verbatim>\<open>playPCMStream\<close> comes after
  the key has been set where it was missing, so it never reads a property of
  \<^verbatim>\<open>undefined\<close>: on every player the two play methods return a dispatcher.
\<close>

lemma assign_dispatcher_present:
  "Collection_has c s \<Longrightarrow> \<exists>c'. assign_dispatcher s d c = Inr c'"
  by (auto simp: assign_dispatcher_def Collection_has_get)

lemma Collection_has_set: "Collection_has (Collection_set c k v) k"
  by (simp add: Collection_has_get)

lemma playPCMStream_returns: "\<exists>d p'. playPCMStream s a p = Inr (d, p')"
proof -
  let ?p1 = "destroyAllStreams (Ref s) p"
  let ?d = "next_id ?p1"
  let ?p3 = "on (DispatcherObj ?d) ''speaking'' DispatcherSpeaking
              (call (NewStreamDispatcher ?d s (options_of (destructure a)))
                 (?p1\<lparr>next_id := Suc ?d\<rparr>))"
  let ?p4 = "if \<not> Collection_has (streams ?p3) s
             then ?p3\<lparr>streams := Collection_set (streams ?p3) s
                        \<lparr>ident = next_id ?p3, transcoder = None, dispatcher = Some ?d, input = s\<rparr>,
                      next_id := Suc (next_id ?p3)\<rparr>
             else ?p3"
  have "Collection_has (streams ?p4) s"
    by (simp add: Collection_has_set)
  then obtain c' where "assign_dispatcher s ?d (streams ?p4) = Inr c'"
    using assign_dispatcher_present by blast
  then show ?thesis
    by (simp add: playPCMStream_def Let_def)
qed

lemma playUnknownStream_returns: "\<exists>d p'. playUnknownStream String s a p = Inr (d, p')"
  unfolding playUnknownStream_delegates by (rule playPCMStream_returns)

end
